theory Spec2Isabelle
  imports Main "HOL-Library.Log_Nat"
begin

section \<open>JavaScript numbers\<close>

text \<open>
  A JavaScript number is an IEEE 754 binary64 value. The finite ones are rationals, so a
  number is a rational or one of the three special values. The two zeros are one value
  here (\<open>-0 === 0\<close> holds in JavaScript); the module never divides by a zero, the only
  operation that tells them apart. Not every rational is a double: \<open>is_double\<close> below
  says which are.
\<close>

datatype jsnum = Fin rat | PosInf | NegInf | NaN

text \<open>
  Rounding of an exact result to the nearest double, ties to the even significand: what
  \<open>*\<close> and \<open>/\<close> of the language do after computing exactly. A positive \<open>a\<close> with
  \<open>2 ^ k \<le> a < 2 ^ (k + 1)\<close> is rounded to a multiple of \<open>2 ^ (k - 52)\<close>, the spacing
  of the doubles there; below \<open>2 ^ - 1022\<close> the spacing stays \<open>2 ^ - 1074\<close> (subnormal
  numbers), and a result of \<open>2 ^ 1024\<close> or more, one whose exponent \<open>flog2\<close> is at
  least 1024, is an infinity.
\<close>

definition round_half_even :: "rat \<Rightarrow> int" where
  "round_half_even q =
     (let f = \<lfloor>q\<rfloor>; d = q - of_int f
      in if d < 1 / 2 then f
         else if 1 / 2 < d then f + 1
         else if even f then f else f + 1)"

definition flog2 :: "rat \<Rightarrow> int" where
  "flog2 a =
     (case quotient_of a of (n, d) \<Rightarrow>
        let k = bitlen n - bitlen d
        in if 2 powi k \<le> a then k else k - 1)"

definition spacing_exp :: "rat \<Rightarrow> int" where
  "spacing_exp a = max (flog2 a) (- 1022) - 52"

definition round64_pos :: "rat \<Rightarrow> rat" where
  "round64_pos a =
     of_int (round_half_even (a / 2 powi spacing_exp a)) * 2 powi spacing_exp a"

definition round64 :: "rat \<Rightarrow> jsnum" where
  "round64 x =
     (if x = 0 then Fin 0
      else let r = round64_pos \<bar>x\<bar>
           in if 0 < r \<and> 1024 \<le> flog2 r then (if 0 < x then PosInf else NegInf)
              else Fin (if 0 < x then r else - r))"

definition is_double :: "rat \<Rightarrow> bool" where
  "is_double r = (round64 r = Fin r)"

text \<open>The operators \<open>*\<close>, \<open>/\<close> and \<open><=\<close> on numbers.\<close>

fun js_mul :: "jsnum \<Rightarrow> jsnum \<Rightarrow> jsnum" where
  "js_mul NaN y = NaN"
| "js_mul x NaN = NaN"
| "js_mul (Fin a) (Fin b) = round64 (a * b)"
| "js_mul (Fin a) PosInf = (if a = 0 then NaN else if 0 < a then PosInf else NegInf)"
| "js_mul (Fin a) NegInf = (if a = 0 then NaN else if 0 < a then NegInf else PosInf)"
| "js_mul PosInf (Fin b) = (if b = 0 then NaN else if 0 < b then PosInf else NegInf)"
| "js_mul NegInf (Fin b) = (if b = 0 then NaN else if 0 < b then NegInf else PosInf)"
| "js_mul PosInf PosInf = PosInf"
| "js_mul PosInf NegInf = NegInf"
| "js_mul NegInf PosInf = NegInf"
| "js_mul NegInf NegInf = PosInf"

text \<open>
  A zero divisor is read as \<open>+0\<close>. The module divides by the literal 100 and by
  \<open>totalWords\<close>, which it has checked not to be a zero.
\<close>

fun js_div :: "jsnum \<Rightarrow> jsnum \<Rightarrow> jsnum" where
  "js_div NaN y = NaN"
| "js_div x NaN = NaN"
| "js_div (Fin a) (Fin b) =
     (if b = 0 then (if a = 0 then NaN else if 0 < a then PosInf else NegInf)
      else round64 (a / b))"
| "js_div (Fin a) PosInf = Fin 0"
| "js_div (Fin a) NegInf = Fin 0"
| "js_div PosInf (Fin b) = (if 0 \<le> b then PosInf else NegInf)"
| "js_div NegInf (Fin b) = (if 0 \<le> b then NegInf else PosInf)"
| "js_div PosInf PosInf = NaN"
| "js_div PosInf NegInf = NaN"
| "js_div NegInf PosInf = NaN"
| "js_div NegInf NegInf = NaN"

fun js_le :: "jsnum \<Rightarrow> jsnum \<Rightarrow> bool" where
  "js_le NaN y = False"
| "js_le x NaN = False"
| "js_le (Fin a) (Fin b) = (a \<le> b)"
| "js_le NegInf y = True"
| "js_le x PosInf = True"
| "js_le PosInf y = False"
| "js_le x NegInf = False"

text \<open>\<open>Math.min\<close>, \<open>Math.max\<close>, \<open>Math.floor\<close> and \<open>Math.round\<close> (ties towards \<open>+\<infinity>\<close>).\<close>

definition Math_min :: "jsnum \<Rightarrow> jsnum \<Rightarrow> jsnum" where
  "Math_min x y = (if x = NaN \<or> y = NaN then NaN else if js_le x y then x else y)"

definition Math_max :: "jsnum \<Rightarrow> jsnum \<Rightarrow> jsnum" where
  "Math_max x y = (if x = NaN \<or> y = NaN then NaN else if js_le x y then y else x)"

fun Math_floor :: "jsnum \<Rightarrow> jsnum" where
  "Math_floor (Fin r) = Fin (of_int \<lfloor>r\<rfloor>)"
| "Math_floor x = x"

fun Math_round :: "jsnum \<Rightarrow> jsnum" where
  "Math_round (Fin r) = Fin (of_int \<lfloor>r + 1 / 2\<rfloor>)"
| "Math_round x = x"

section \<open>JavaScript values and JSON\<close>

text \<open>
  The values a caller can pass: plain data, with \<open>undefined\<close> and BigInt among it.
  An object is the list of its own properties. Functions, symbols, getters, \<open>toJSON\<close>
  methods and cyclic structures are outside the model.
\<close>

datatype jsval =
    Undefined
  | Null
  | Bool bool
  | Num jsnum
  | Str string
  | BigInt int
  | Arr "jsval list"
  | Obj "(string \<times> jsval) list"

datatype js_error = TypeError | SyntaxError | SecurityError | QuotaExceededError

fun truthy :: "jsval \<Rightarrow> bool" where
  "truthy Undefined = False"
| "truthy Null = False"
| "truthy (Bool b) = b"
| "truthy (Num n) = (n \<noteq> NaN \<and> n \<noteq> Fin 0)"
| "truthy (Str s) = (s \<noteq> [])"
| "truthy (BigInt i) = (i \<noteq> 0)"
| "truthy (Arr xs) = True"
| "truthy (Obj kvs) = True"

text \<open>
  \<open>ToNumber\<close>, for the operands that need no parsing. A string, an array, an object or a
  BigInt operand is outside the model: \<open>None\<close>.
\<close>

fun to_number :: "jsval \<Rightarrow> jsnum option" where
  "to_number Undefined = Some NaN"
| "to_number Null = Some (Fin 0)"
| "to_number (Bool b) = Some (Fin (if b then 1 else 0))"
| "to_number (Num n) = Some n"
| "to_number v = None"

text \<open>
  Reading a property \<open>v.k\<close>: a TypeError on \<open>undefined\<close> and \<open>null\<close>, the own property
  of an object, \<open>undefined\<close> where there is none. The module reads \<open>text\<close>,
  \<open>currentWordIndex\<close>, \<open>totalWords\<close>, \<open>settings\<close> and \<open>savedAt\<close> only, which no
  primitive, array or prototype has.
\<close>

definition member :: "(string \<times> jsval) list \<Rightarrow> string \<Rightarrow> jsval" where
  "member kvs k = (case map_of kvs k of None \<Rightarrow> Undefined | Some v \<Rightarrow> v)"

fun js_get :: "jsval \<Rightarrow> string \<Rightarrow> js_error + jsval" where
  "js_get Undefined k = Inl TypeError"
| "js_get Null k = Inl TypeError"
| "js_get (Obj kvs) k = Inr (member kvs k)"
| "js_get v k = Inr Undefined"

text \<open>
  What a JSON text says, as \<open>JSON.parse\<close> reads it: numbers are already the doubles
  (or infinities, for a literal like \<open>1e999\<close>) they parse to.
\<close>

datatype json =
    JNull
  | JBool bool
  | JNum jsnum
  | JStr string
  | JArr "json list"
  | JObj "(string \<times> json) list"

primrec of_json :: "json \<Rightarrow> jsval" where
  "of_json JNull = Null"
| "of_json (JBool b) = Bool b"
| "of_json (JNum n) = Num n"
| "of_json (JStr s) = Str s"
| "of_json (JArr xs) = Arr (map of_json xs)"
| "of_json (JObj kvs) = Obj (map (map_prod id of_json) kvs)"

text \<open>
  \<open>JSON.stringify\<close> on a value: \<open>Inl\<close> when it throws (a BigInt), \<open>Inr None\<close> when it
  returns \<open>undefined\<close>, else the JSON written. A property whose value gives \<open>undefined\<close>
  is left out, an array element that does is written \<open>null\<close>, and so is a number that is
  not finite.
\<close>

fun serialize :: "jsval \<Rightarrow> js_error + json option"
  and serialize_elems :: "jsval list \<Rightarrow> js_error + json list"
  and serialize_props :: "(string \<times> jsval) list \<Rightarrow> js_error + (string \<times> json) list"
where
  "serialize Undefined = Inr None"
| "serialize Null = Inr (Some JNull)"
| "serialize (Bool b) = Inr (Some (JBool b))"
| "serialize (Num n) = Inr (Some (case n of Fin r \<Rightarrow> JNum (Fin r) | _ \<Rightarrow> JNull))"
| "serialize (Str s) = Inr (Some (JStr s))"
| "serialize (BigInt i) = Inl TypeError"
| "serialize (Arr xs) =
     (case serialize_elems xs of Inl e \<Rightarrow> Inl e | Inr js \<Rightarrow> Inr (Some (JArr js)))"
| "serialize (Obj kvs) =
     (case serialize_props kvs of Inl e \<Rightarrow> Inl e | Inr ps \<Rightarrow> Inr (Some (JObj ps)))"
| "serialize_elems [] = Inr []"
| "serialize_elems (x # xs) =
     (case serialize x of
        Inl e \<Rightarrow> Inl e
      | Inr j \<Rightarrow>
          (case serialize_elems xs of
             Inl e \<Rightarrow> Inl e
           | Inr js \<Rightarrow> Inr ((case j of None \<Rightarrow> JNull | Some j' \<Rightarrow> j') # js)))"
| "serialize_props [] = Inr []"
| "serialize_props ((k, v) # kvs) =
     (case serialize v of
        Inl e \<Rightarrow> Inl e
      | Inr j \<Rightarrow>
          (case serialize_props kvs of
             Inl e \<Rightarrow> Inl e
           | Inr ps \<Rightarrow> Inr (case j of None \<Rightarrow> ps | Some j' \<Rightarrow> (k, j') # ps)))"

section \<open>The host: localStorage, the clock, the console\<close>

text \<open>
  A string held by localStorage is told apart only by what the module can see of it:
  whether it is empty, and what \<open>JSON.parse\<close> makes of it. \<open>JsonText j\<close> is a string
  that parses to \<open>j\<close>, \<open>NotJson\<close> a non-empty string that does not parse.
\<close>

datatype stored = EmptyString | NotJson | JsonText json

record world =
  storage :: "(string \<rightharpoonup> stored) option"
  full :: bool
  clock :: int
  console :: "(string \<times> js_error) list"

text \<open>
  \<open>storage\<close> is the content of localStorage, \<open>None\<close> when the host has none to offer:
  every access to it throws then. When \<open>full\<close>, \<open>setItem\<close> throws. \<open>clock\<close> is the
  time in milliseconds that \<open>Date.now()\<close> reads, \<open>console\<close> the calls of
  \<open>console.error\<close> so far.
\<close>

definition STORAGE_KEY :: string where
  "STORAGE_KEY = ''rsvp-reading-session''"

fun and_then :: "'e + 'a \<Rightarrow> ('a \<Rightarrow> 'e + 'b) \<Rightarrow> 'e + 'b" where
  "and_then (Inl e) f = Inl e"
| "and_then (Inr x) f = f x"

definition localStorage :: "world \<Rightarrow> js_error + (string \<rightharpoonup> stored)" where
  "localStorage w = (case storage w of None \<Rightarrow> Inl SecurityError | Some m \<Rightarrow> Inr m)"

definition getItem :: "string \<Rightarrow> world \<Rightarrow> js_error + stored option" where
  "getItem k w = and_then (localStorage w) (\<lambda>m. Inr (m k))"

definition setItem :: "string \<Rightarrow> stored \<Rightarrow> world \<Rightarrow> js_error + world" where
  "setItem k v w =
     and_then (localStorage w) (\<lambda>m.
       if full w then Inl QuotaExceededError
       else Inr (w\<lparr>storage := Some (m(k \<mapsto> v))\<rparr>))"

definition removeItem :: "string \<Rightarrow> world \<Rightarrow> js_error + world" where
  "removeItem k w =
     and_then (localStorage w) (\<lambda>m. Inr (w\<lparr>storage := Some (m(k := None))\<rparr>))"

definition Date_now :: "world \<Rightarrow> jsval" where
  "Date_now w = Num (Fin (of_int (clock w)))"

text \<open>Time passes: \<open>d\<close> milliseconds later.\<close>

definition advance :: "nat \<Rightarrow> world \<Rightarrow> world" where
  "advance d w = w\<lparr>clock := clock w + int d\<rparr>"

definition console_error :: "string \<Rightarrow> js_error \<Rightarrow> world \<Rightarrow> world" where
  "console_error msg e w = w\<lparr>console := console w @ [(msg, e)]\<rparr>"

text \<open>
  \<open>JSON.stringify\<close> as a string for \<open>setItem\<close>, which writes \<open>undefined\<close> as the
  string "undefined"; \<open>JSON.parse\<close> of a stored string.
\<close>

definition JSON_stringify :: "jsval \<Rightarrow> js_error + stored" where
  "JSON_stringify v =
     (case serialize v of
        Inl e \<Rightarrow> Inl e
      | Inr None \<Rightarrow> Inr NotJson
      | Inr (Some j) \<Rightarrow> Inr (JsonText j))"

fun JSON_parse :: "stored \<Rightarrow> js_error + jsval" where
  "JSON_parse EmptyString = Inl SyntaxError"
| "JSON_parse NotJson = Inl SyntaxError"
| "JSON_parse (JsonText j) = Inr (of_json j)"

text \<open>\<open>!data\<close> for what \<open>getItem\<close> returns: \<open>null\<close> or the empty string.\<close>

fun falsy_item :: "stored option \<Rightarrow> bool" where
  "falsy_item None = True"
| "falsy_item (Some EmptyString) = True"
| "falsy_item (Some s) = False"

section \<open>The module \<open>progress-storage.js\<close>\<close>

definition save_body :: "jsval \<Rightarrow> world \<Rightarrow> js_error + world" where
  "save_body session w =
     and_then (js_get session ''text'') (\<lambda>text.
     and_then (js_get session ''currentWordIndex'') (\<lambda>currentWordIndex.
     and_then (js_get session ''totalWords'') (\<lambda>totalWords.
     and_then (js_get session ''settings'') (\<lambda>settings.
       let data = Obj [(''text'', text),
                       (''currentWordIndex'', currentWordIndex),
                       (''totalWords'', totalWords),
                       (''settings'', settings),
                       (''savedAt'', Date_now w)]
       in and_then (localStorage w) (\<lambda>m.
          and_then (JSON_stringify data) (\<lambda>s. setItem STORAGE_KEY s w))))))"

definition saveSession :: "jsval \<Rightarrow> world \<Rightarrow> bool \<times> world" where
  "saveSession session w =
     (case save_body session w of
        Inr w' \<Rightarrow> (True, w')
      | Inl error \<Rightarrow> (False, console_error ''Failed to save session:'' error w))"

definition load_body :: "world \<Rightarrow> js_error + jsval" where
  "load_body w =
     and_then (getItem STORAGE_KEY w) (\<lambda>data.
       if falsy_item data then Inr Null
       else (case data of Some s \<Rightarrow> JSON_parse s | None \<Rightarrow> Inr Null))"

definition loadSession :: "world \<Rightarrow> jsval \<times> world" where
  "loadSession w =
     (case load_body w of
        Inr v \<Rightarrow> (v, w)
      | Inl error \<Rightarrow> (Null, console_error ''Failed to load session:'' error w))"

definition hasSession :: "world \<Rightarrow> bool" where
  "hasSession w =
     (case getItem STORAGE_KEY w of Inr data \<Rightarrow> data \<noteq> None | Inl error \<Rightarrow> False)"

definition clearSession :: "world \<Rightarrow> bool \<times> world" where
  "clearSession w =
     (case removeItem STORAGE_KEY w of
        Inr w' \<Rightarrow> (True, w')
      | Inl error \<Rightarrow> (False, console_error ''Failed to clear session:'' error w))"

definition summary_body :: "world \<Rightarrow> js_error + jsval" where
  "summary_body w =
     and_then (getItem STORAGE_KEY w) (\<lambda>data.
       if falsy_item data then Inr Null
       else and_then (case data of Some s \<Rightarrow> JSON_parse s | None \<Rightarrow> Inr Null) (\<lambda>parsed.
            and_then (js_get parsed ''currentWordIndex'') (\<lambda>currentWordIndex.
            and_then (js_get parsed ''totalWords'') (\<lambda>totalWords.
            and_then (js_get parsed ''savedAt'') (\<lambda>savedAt.
            and_then (js_get parsed ''text'') (\<lambda>text.
              Inr (Obj [(''currentWordIndex'', currentWordIndex),
                        (''totalWords'', totalWords),
                        (''savedAt'', savedAt),
                        (''hasText'', Bool (truthy text))])))))))"

definition getSessionSummary :: "world \<Rightarrow> jsval" where
  "getSessionSummary w = (case summary_body w of Inr v \<Rightarrow> v | Inl error \<Rightarrow> Null)"

text \<open>
  The two conversions. \<open>None\<close> is a call that leaves the model (an operand that
  \<open>to_number\<close> does not cover is coerced); the checks and the coercions come in the
  order in which the source evaluates them.
\<close>

definition percentageToWordIndex :: "jsval \<Rightarrow> jsval \<Rightarrow> jsval option" where
  "percentageToWordIndex percentage totalWords =
     (if \<not> truthy totalWords then Some (Num (Fin 0))
      else case to_number totalWords of
        None \<Rightarrow> None
      | Some t \<Rightarrow>
          if js_le t (Fin 0) then Some (Num (Fin 0))
          else (case to_number percentage of
            None \<Rightarrow> None
          | Some p \<Rightarrow>
              let clamped = Math_max (Fin 0) (Math_min (Fin 100) p)
              in Some (Num (Math_floor (js_mul (js_div clamped (Fin 100)) t)))))"

definition wordIndexToPercentage :: "jsval \<Rightarrow> jsval \<Rightarrow> jsval option" where
  "wordIndexToPercentage wordIndex totalWords =
     (if \<not> truthy totalWords then Some (Num (Fin 0))
      else case to_number totalWords of
        None \<Rightarrow> None
      | Some t \<Rightarrow>
          if js_le t (Fin 0) then Some (Num (Fin 0))
          else (case to_number wordIndex of
            None \<Rightarrow> None
          | Some i \<Rightarrow> Some (Num (Math_round (js_mul (js_div i t) (Fin 100))))))"

section \<open>Sessions that survive JSON\<close>

text \<open>
  Plain data is what \<open>JSON.stringify\<close> writes in full: no \<open>undefined\<close>, no BigInt, no
  number that is not finite, at any depth. A valid session has a string as its text,
  finite numbers as its position and its word count, and plain data as its settings.
\<close>

fun plain :: "jsval \<Rightarrow> bool" where
  "plain Undefined = False"
| "plain Null = True"
| "plain (Bool b) = True"
| "plain (Num n) = (case n of Fin r \<Rightarrow> True | _ \<Rightarrow> False)"
| "plain (Str s) = True"
| "plain (BigInt i) = False"
| "plain (Arr xs) = list_all plain xs"
| "plain (Obj kvs) = list_all (\<lambda>p. plain (snd p)) kvs"

fun is_string :: "jsval \<Rightarrow> bool" where
  "is_string (Str s) = True"
| "is_string v = False"

fun is_finite_number :: "jsval \<Rightarrow> bool" where
  "is_finite_number (Num (Fin r)) = True"
| "is_finite_number v = False"

definition valid_session :: "jsval \<Rightarrow> bool" where
  "valid_session session =
     (case session of
        Obj kvs \<Rightarrow>
          is_string (member kvs ''text'') \<and>
          is_finite_number (member kvs ''currentWordIndex'') \<and>
          is_finite_number (member kvs ''totalWords'') \<and>
          plain (member kvs ''settings'')
      | _ \<Rightarrow> False)"

text \<open>The property \<open>k\<close> of a stored record, as \<open>JSON.parse\<close> hands it over.\<close>

definition stored_field :: "(string \<times> json) list \<Rightarrow> string \<Rightarrow> jsval" where
  "stored_field props k = (case map_of props k of None \<Rightarrow> Undefined | Some j \<Rightarrow> of_json j)"

text \<open>A host and a session to run the module on.\<close>

definition example_world :: world where
  "example_world =
     \<lparr>storage = Some Map.empty, full = False, clock = 1700000000000, console = []\<rparr>"

definition example_session :: jsval where
  "example_session =
     Obj [(''text'', Str ''the quick brown fox''),
          (''currentWordIndex'', Num (Fin 2)),
          (''totalWords'', Num (Fin 4)),
          (''settings'', Obj [(''wpm'', Num (Fin 300)), (''chunk'', Arr [Bool True, Null])]),
          (''savedAt'', Num (Fin 5))]"

definition holding :: "stored \<Rightarrow> world" where
  "holding s = example_world\<lparr>storage := Some [STORAGE_KEY \<mapsto> s]\<rparr>"

section \<open>Rounding to a double is monotone\<close>

lemma rhe_of_int: "round_half_even (of_int n) = n"
  by (simp add: round_half_even_def)

lemma rhe_ge_floor: "\<lfloor>q\<rfloor> \<le> round_half_even q"
  unfolding round_half_even_def Let_def by auto

lemma rhe_le_floor: "round_half_even q \<le> \<lfloor>q\<rfloor> + 1"
  unfolding round_half_even_def Let_def by auto

lemma rhe_mono:
  assumes "q1 \<le> q2"
  shows "round_half_even q1 \<le> round_half_even q2"
proof (cases "\<lfloor>q1\<rfloor> = \<lfloor>q2\<rfloor>")
  case True
  then show ?thesis using assms
    unfolding round_half_even_def Let_def by auto
next
  case False
  moreover have "\<lfloor>q1\<rfloor> \<le> \<lfloor>q2\<rfloor>" using assms by (rule floor_mono)
  ultimately have "\<lfloor>q1\<rfloor> + 1 \<le> \<lfloor>q2\<rfloor>" by simp
  then show ?thesis using rhe_le_floor[of q1] rhe_ge_floor[of q2] by linarith
qed

lemma flog2_bounds:
  assumes "0 < a"
  shows "2 powi flog2 a \<le> a \<and> a < 2 powi (flog2 a + 1)"
proof -
  obtain n d where q: "quotient_of a = (n, d)" by (cases "quotient_of a")
  have d: "0 < d" using q by (rule quotient_of_denom_pos)
  have a: "a = of_int n / of_int d" using q by (rule quotient_of_div)
  have n: "0 < n" using assms a d by (simp add: zero_less_divide_iff)
  define bn where "bn = bitlen n"
  define bd where "bd = bitlen d"
  have bn: "2 ^ nat (bn - 1) \<le> n" "n < 2 ^ nat bn"
    using bitlen_bounds[OF n] by (simp_all add: bn_def)
  have bd: "2 ^ nat (bd - 1) \<le> d" "d < 2 ^ nat bd"
    using bitlen_bounds[OF d] by (simp_all add: bd_def)
  have bn1: "1 \<le> bn" using n by (auto simp: bn_def bitlen_alt_def)
  have bd1: "1 \<le> bd" using d by (auto simp: bd_def bitlen_alt_def)
  have "rat_of_int (2 ^ nat (bn - 1)) \<le> of_int n" using bn(1) by (simp only: of_int_le_iff)
  then have n_lo: "(2::rat) powi (bn - 1) \<le> of_int n"
    using bn1 by (simp add: power_int_nonneg_exp)
  have "rat_of_int n < of_int (2 ^ nat bn)" using bn(2) by (simp only: of_int_less_iff)
  then have n_hi: "of_int n < (2::rat) powi bn"
    using bn1 by (simp add: power_int_nonneg_exp)
  have "rat_of_int (2 ^ nat (bd - 1)) \<le> of_int d" using bd(1) by (simp only: of_int_le_iff)
  then have d_lo: "(2::rat) powi (bd - 1) \<le> of_int d"
    using bd1 by (simp add: power_int_nonneg_exp)
  have "rat_of_int d < of_int (2 ^ nat bd)" using bd(2) by (simp only: of_int_less_iff)
  then have d_hi: "of_int d < (2::rat) powi bd"
    using bd1 by (simp add: power_int_nonneg_exp)
  have dpos: "0 < rat_of_int d" using d by simp
  have p1: "0 < (2::rat) powi (bd - 1)" by (simp add: zero_less_power_int)
  have p2: "0 < (2::rat) powi bd" by (simp add: zero_less_power_int)
  have e1: "(2::rat) powi (bn - (bd - 1)) = 2 powi bn / 2 powi (bd - 1)"
    by (rule power_int_diff) simp
  have e2: "(2::rat) powi ((bn - 1) - bd) = 2 powi (bn - 1) / 2 powi bd"
    by (rule power_int_diff) simp
  have i1: "bn - bd + 1 = bn - (bd - 1)" and i2: "bn - bd - 1 = (bn - 1) - bd"
    by simp_all
  have "a < 2 powi bn / 2 powi (bd - 1)"
    unfolding a using n_hi d_lo dpos p1 n
    by (intro frac_less) auto
  then have hi: "a < 2 powi (bn - bd + 1)"
    unfolding i1 e1 .
  have "2 powi (bn - 1) / 2 powi bd < a"
    unfolding a using n_lo d_hi dpos p2 n
    by (intro frac_less2) (auto simp: zero_less_power_int)
  then have lo: "2 powi (bn - bd - 1) < a"
    unfolding i2 e2 .
  show ?thesis
  proof (cases "2 powi (bn - bd) \<le> a")
    case True
    then have "flog2 a = bn - bd" by (simp add: flog2_def q Let_def bn_def bd_def)
    then show ?thesis using True hi by simp
  next
    case False
    then have "flog2 a = bn - bd - 1" by (simp add: flog2_def q Let_def bn_def bd_def)
    then show ?thesis using False lo by simp
  qed
qed

lemma flog2_mono:
  assumes "0 < a" and "a \<le> b"
  shows "flog2 a \<le> flog2 b"
proof (rule ccontr)
  assume "\<not> flog2 a \<le> flog2 b"
  then have "flog2 b + 1 \<le> flog2 a" by simp
  then have "(2::rat) powi (flog2 b + 1) \<le> 2 powi flog2 a"
    by (intro power_int_increasing) simp_all
  also have "\<dots> \<le> a" using flog2_bounds[OF assms(1)] by simp
  also have "\<dots> \<le> b" by (rule assms(2))
  also have "\<dots> < 2 powi (flog2 b + 1)" using flog2_bounds[of b] assms by simp
  finally show False by simp
qed

lemma spacing_exp_mono: "0 < a \<Longrightarrow> a \<le> b \<Longrightarrow> spacing_exp a \<le> spacing_exp b"
  using flog2_mono[of a b] by (simp add: spacing_exp_def)

lemma spacing_pos: "0 < (2::rat) powi e"
  by (simp add: zero_less_power_int)

lemma scaled_upper:
  assumes "0 < a"
  shows "a / 2 powi spacing_exp a < 2 ^ 53"
proof -
  have "a < 2 powi (flog2 a + 1)" using flog2_bounds[OF assms] by simp
  also have "\<dots> \<le> 2 powi (spacing_exp a + 53)"
    by (intro power_int_increasing) (simp_all add: spacing_exp_def)
  also have "\<dots> = 2 powi spacing_exp a * 2 ^ 53"
    by (simp add: power_int_add)
  finally show ?thesis using spacing_pos[of "spacing_exp a"]
    by (simp add: pos_divide_less_eq mult.commute)
qed

lemma scaled_lower:
  assumes "0 < a" and "- 1022 \<le> flog2 a"
  shows "2 ^ 52 \<le> a / 2 powi spacing_exp a"
proof -
  have e: "flog2 a = spacing_exp a + 52" using assms(2) by (simp add: spacing_exp_def)
  have "2 powi spacing_exp a * 2 ^ 52 = (2::rat) powi flog2 a"
    unfolding e by (simp add: power_int_add)
  also have "\<dots> \<le> a" using flog2_bounds[OF assms(1)] by simp
  finally show ?thesis using spacing_pos[of "spacing_exp a"]
    by (simp add: pos_le_divide_eq mult.commute)
qed

lemma sig_upper:
  assumes "0 < a"
  shows "rat_of_int (round_half_even (a / 2 powi spacing_exp a)) \<le> 2 ^ 53"
proof -
  have "round_half_even (a / 2 powi spacing_exp a) \<le> round_half_even (of_int (2 ^ 53))"
    using scaled_upper[OF assms] by (intro rhe_mono) simp
  then have "round_half_even (a / 2 powi spacing_exp a) \<le> 2 ^ 53"
    by (simp only: rhe_of_int)
  then have "rat_of_int (round_half_even (a / 2 powi spacing_exp a)) \<le> rat_of_int (2 ^ 53)"
    by (simp only: of_int_le_iff)
  then show ?thesis by simp
qed

lemma sig_lower:
  assumes "0 < a" and "- 1022 \<le> flog2 a"
  shows "2 ^ 52 \<le> rat_of_int (round_half_even (a / 2 powi spacing_exp a))"
proof -
  have "round_half_even (of_int (2 ^ 52)) \<le> round_half_even (a / 2 powi spacing_exp a)"
    using scaled_lower[OF assms] by (intro rhe_mono) simp
  then have "2 ^ 52 \<le> round_half_even (a / 2 powi spacing_exp a)"
    by (simp only: rhe_of_int)
  then have "rat_of_int (2 ^ 52) \<le> rat_of_int (round_half_even (a / 2 powi spacing_exp a))"
    by (simp only: of_int_le_iff)
  then show ?thesis by simp
qed

lemma sig_nonneg:
  assumes "0 < a"
  shows "0 \<le> rat_of_int (round_half_even (a / 2 powi spacing_exp a))"
proof -
  have "round_half_even (of_int 0) \<le> round_half_even (a / 2 powi spacing_exp a)"
    using assms spacing_pos[of "spacing_exp a"] by (intro rhe_mono) simp
  then have "0 \<le> round_half_even (a / 2 powi spacing_exp a)"
    by (simp only: rhe_of_int)
  then show ?thesis by simp
qed

lemma round64_pos_nonneg: "0 < a \<Longrightarrow> 0 \<le> round64_pos a"
  using sig_nonneg[of a] spacing_pos[of "spacing_exp a"]
  by (simp add: round64_pos_def)

lemma round64_pos_mono:
  assumes "0 < a" and "a \<le> b"
  shows "round64_pos a \<le> round64_pos b"
proof (cases "spacing_exp a = spacing_exp b")
  case True
  have "a / 2 powi spacing_exp b \<le> b / 2 powi spacing_exp b"
    using assms(2) spacing_pos[of "spacing_exp b"] by (simp add: divide_right_mono)
  then have "round_half_even (a / 2 powi spacing_exp b) \<le> round_half_even (b / 2 powi spacing_exp b)"
    by (rule rhe_mono)
  then show ?thesis
    using spacing_pos[of "spacing_exp b"] by (simp add: round64_pos_def True)
next
  case False
  have b: "0 < b" using assms by simp
  from False have lt: "spacing_exp a + 1 \<le> spacing_exp b"
    using spacing_exp_mono[OF assms] by simp
  have "- 1074 \<le> spacing_exp a" by (simp add: spacing_exp_def)
  with lt have "- 1022 \<le> flog2 b" by (simp add: spacing_exp_def max_def split: if_splits)
  note lower = sig_lower[OF b this]
  have "round64_pos a \<le> 2 ^ 53 * 2 powi spacing_exp a"
    unfolding round64_pos_def using sig_upper[OF assms(1)] spacing_pos[of "spacing_exp a"]
    by (intro mult_right_mono) simp_all
  also have "\<dots> = 2 ^ 52 * 2 powi (spacing_exp a + 1)"
    by (simp add: power_int_add)
  also have "\<dots> \<le> 2 ^ 52 * 2 powi spacing_exp b"
    using lt by (intro mult_left_mono power_int_increasing) simp_all
  also have "\<dots> \<le> round64_pos b"
    unfolding round64_pos_def using lower spacing_pos[of "spacing_exp b"]
    by (intro mult_right_mono) simp_all
  finally show ?thesis .
qed

lemma overflow_iff:
  assumes "0 < r"
  shows "(1024 \<le> flog2 r) = (2 ^ 1024 \<le> r)"
proof
  assume "1024 \<le> flog2 r"
  then have "(2::rat) powi 1024 \<le> 2 powi flog2 r"
    by (intro power_int_increasing) simp_all
  also have "\<dots> \<le> r" using flog2_bounds[OF assms] by simp
  finally show "2 ^ 1024 \<le> r" by simp
next
  assume big: "2 ^ 1024 \<le> r"
  show "1024 \<le> flog2 r"
  proof (rule ccontr)
    assume "\<not> 1024 \<le> flog2 r"
    then have "flog2 r + 1 \<le> 1024" by simp
    then have "(2::rat) powi (flog2 r + 1) \<le> 2 powi 1024"
      by (intro power_int_increasing) simp_all
    moreover have "r < 2 powi (flog2 r + 1)" using flog2_bounds[OF assms] by simp
    ultimately have "r < 2 powi 1024" by simp
    with big show False by simp
  qed
qed

lemma round64_between:
  assumes "0 \<le> x" and "x \<le> y" and "is_double y"
  shows "\<exists>u. round64 x = Fin u \<and> 0 \<le> u \<and> u \<le> y"
proof (cases "x = 0")
  case True
  then show ?thesis using assms by (simp add: round64_def)
next
  case False
  then have x: "0 < x" and y: "0 < y" using assms by simp_all
  from assms(3) y have ry: "round64_pos y = y" and fin: "\<not> 1024 \<le> flog2 y"
    by (auto simp: is_double_def round64_def Let_def split: if_splits)
  have le: "round64_pos x \<le> y" using round64_pos_mono[OF x assms(2)] ry by simp
  have nn: "0 \<le> round64_pos x" using x by (rule round64_pos_nonneg)
  have "\<not> (0 < round64_pos x \<and> 1024 \<le> flog2 (round64_pos x))"
    using flog2_mono[OF _ le] fin by auto
  then show ?thesis using x le nn by (simp add: round64_def Let_def)
qed

section \<open>JSON written and read back\<close>

lemma and_then_Inr_iff: "(and_then x f = Inr y) = (\<exists>a. x = Inr a \<and> f a = Inr y)"
  by (cases x) auto

lemma and_then_Inl_iff:
  "(and_then x f = Inl e) = (x = Inl e \<or> (\<exists>a. x = Inr a \<and> f a = Inl e))"
  by (cases x) auto

lemma member_of_json: "member (map (map_prod id of_json) props) k = stored_field props k"
  by (induction props) (auto simp: member_def stored_field_def)

lemma serialize_plain:
  "plain v \<Longrightarrow> \<exists>j. serialize v = Inr (Some j) \<and> of_json j = v"
  "list_all plain xs \<Longrightarrow> \<exists>js. serialize_elems xs = Inr js \<and> map of_json js = xs"
  "list_all (\<lambda>p. plain (snd p)) kvs \<Longrightarrow>
     \<exists>ps. serialize_props kvs = Inr ps \<and> map (map_prod id of_json) ps = kvs"
proof (induction v and xs and kvs rule: serialize_serialize_elems_serialize_props.induct)
  case (4 n)
  then show ?case by (cases n) auto
qed auto

lemma serialize_props_append:
  "serialize_props (xs @ ys) =
     and_then (serialize_props xs) (\<lambda>ps.
     and_then (serialize_props ys) (\<lambda>qs. Inr (ps @ qs)))"
proof (induction xs)
  case Nil
  show ?case by (cases "serialize_props ys") auto
next
  case (Cons x xs)
  obtain k v where x: "x = (k, v)" by (cases x)
  show ?case
    unfolding x using Cons
    by (cases "serialize v"; cases "serialize_props xs"; cases "serialize_props ys")
       (auto split: option.splits)
qed

lemma serialize_props_keys: "serialize_props kvs = Inr ps \<Longrightarrow> fst ` set ps \<subseteq> fst ` set kvs"
proof (induction kvs arbitrary: ps)
  case Nil
  then show ?case by simp
next
  case (Cons x kvs)
  obtain k v where x: "x = (k, v)" by (cases x)
  from Cons.prems obtain j qs where
    "serialize_props kvs = Inr qs" and
    ps: "ps = (case j of None \<Rightarrow> qs | Some j' \<Rightarrow> (k, j') # qs)"
    unfolding x by (auto split: sum.splits)
  with Cons.IH[of qs] show ?case unfolding x by (auto split: option.splits)
qed

section \<open>What the operations do, case by case\<close>

lemma getItem_available: "storage w = Some m \<Longrightarrow> getItem k w = Inr (m k)"
  by (simp add: getItem_def localStorage_def)

lemma getItem_unavailable: "storage w = None \<Longrightarrow> getItem k w = Inl SecurityError"
  by (simp add: getItem_def localStorage_def)

lemma load_absent:
  "storage w = Some m \<Longrightarrow> m STORAGE_KEY = None \<Longrightarrow> loadSession w = (Null, w)"
  by (simp add: loadSession_def load_body_def getItem_available)

lemma load_empty_string:
  "storage w = Some m \<Longrightarrow> m STORAGE_KEY = Some EmptyString \<Longrightarrow> loadSession w = (Null, w)"
  by (simp add: loadSession_def load_body_def getItem_available)

lemma load_not_json:
  "storage w = Some m \<Longrightarrow> m STORAGE_KEY = Some NotJson \<Longrightarrow>
   loadSession w = (Null, console_error ''Failed to load session:'' SyntaxError w)"
  by (simp add: loadSession_def load_body_def getItem_available)

lemma load_json:
  "storage w = Some m \<Longrightarrow> m STORAGE_KEY = Some (JsonText j) \<Longrightarrow>
   loadSession w = (of_json j, w)"
  by (simp add: loadSession_def load_body_def getItem_available)

lemma load_unavailable:
  "storage w = None \<Longrightarrow>
   loadSession w = (Null, console_error ''Failed to load session:'' SecurityError w)"
  by (simp add: loadSession_def load_body_def getItem_unavailable)

lemma summary_of_object:
  assumes "storage w = Some m" and "m STORAGE_KEY = Some (JsonText (JObj props))"
  shows "getSessionSummary w =
           Obj [(''currentWordIndex'', stored_field props ''currentWordIndex''),
                (''totalWords'', stored_field props ''totalWords''),
                (''savedAt'', stored_field props ''savedAt''),
                (''hasText'', Bool (truthy (stored_field props ''text'')))]"
  using assms
  by (simp add: getSessionSummary_def summary_body_def getItem_available member_of_json)

lemma stringify_record:
  "JSON_stringify (Obj (fs @ [(''savedAt'', Date_now w)])) =
     and_then (serialize_props fs) (\<lambda>ps.
       Inr (JsonText (JObj (ps @ [(''savedAt'', JNum (Fin (of_int (clock w))))]))))"
  by (cases "serialize_props fs")
     (simp_all add: JSON_stringify_def serialize_props_append Date_now_def)

lemma save_body_Inr:
  assumes "save_body session w = Inr w'"
  shows "\<exists>t c n st m ps.
           js_get session ''text'' = Inr t \<and>
           js_get session ''currentWordIndex'' = Inr c \<and>
           js_get session ''totalWords'' = Inr n \<and>
           js_get session ''settings'' = Inr st \<and>
           storage w = Some m \<and> \<not> full w \<and>
           serialize_props [(''text'', t), (''currentWordIndex'', c),
                            (''totalWords'', n), (''settings'', st)] = Inr ps \<and>
           w' = w\<lparr>storage := Some (m(STORAGE_KEY \<mapsto>
                  JsonText (JObj (ps @ [(''savedAt'', JNum (Fin (of_int (clock w))))]))))\<rparr>"
proof -
  from assms obtain t c n st m s where
    g: "js_get session ''text'' = Inr t" "js_get session ''currentWordIndex'' = Inr c"
       "js_get session ''totalWords'' = Inr n" "js_get session ''settings'' = Inr st" and
    m: "localStorage w = Inr m" and
    s: "JSON_stringify (Obj ([(''text'', t), (''currentWordIndex'', c),
          (''totalWords'', n), (''settings'', st)] @ [(''savedAt'', Date_now w)])) = Inr s" and
    w': "setItem STORAGE_KEY s w = Inr w'"
    unfolding save_body_def and_then_Inr_iff Let_def by auto
  from s obtain ps where
    ps: "serialize_props [(''text'', t), (''currentWordIndex'', c),
           (''totalWords'', n), (''settings'', st)] = Inr ps" and
    s': "s = JsonText (JObj (ps @ [(''savedAt'', JNum (Fin (of_int (clock w))))]))"
    unfolding stringify_record and_then_Inr_iff by auto
  from m have st: "storage w = Some m"
    by (simp add: localStorage_def split: option.splits)
  from w' st have nf: "\<not> full w" and weq: "w' = w\<lparr>storage := Some (m(STORAGE_KEY \<mapsto> s))\<rparr>"
    by (auto simp: setItem_def localStorage_def split: if_splits)
  show ?thesis
    apply (rule exI[where x = t], rule exI[where x = c], rule exI[where x = n])
    apply (rule exI[where x = st], rule exI[where x = m], rule exI[where x = ps])
    using g st ps nf weq s' by simp
qed

lemma saveSession_True_iff: "(saveSession session w = (True, w')) = (save_body session w = Inr w')"
  by (auto simp: saveSession_def split: sum.splits)

lemma saveSession_failure:
  "save_body session w = Inl e \<Longrightarrow>
   saveSession session w = (False, console_error ''Failed to save session:'' e w)"
  by (simp add: saveSession_def)

lemma save_body_no_room:
  assumes "storage w = None \<or> full w"
  shows "\<exists>e. save_body session w = Inl e"
proof (cases "save_body session w")
  case (Inl e)
  then show ?thesis by blast
next
  case (Inr w')
  from save_body_Inr[OF this] obtain m where "storage w = Some m" and "\<not> full w"
    by blast
  with assms show ?thesis by simp
qed

lemma save_body_savedAt_ignored:
  "save_body (Obj ((''savedAt'', x) # kvs)) w = save_body (Obj kvs) w"
  by (simp add: save_body_def member_def)

lemma save_body_valid:
  assumes "valid_session session" and "storage w = Some m" and "\<not> full w"
  shows "\<exists>kvs ps. session = Obj kvs \<and>
           map (map_prod id of_json) ps =
             [(''text'', member kvs ''text''),
              (''currentWordIndex'', member kvs ''currentWordIndex''),
              (''totalWords'', member kvs ''totalWords''),
              (''settings'', member kvs ''settings''),
              (''savedAt'', Date_now w)] \<and>
           save_body session w =
             Inr (w\<lparr>storage := Some (m(STORAGE_KEY \<mapsto> JsonText (JObj ps)))\<rparr>)"
proof -
  from assms(1) obtain kvs where kvs: "session = Obj kvs"
    by (cases session) (simp_all add: valid_session_def)
  let ?data = "[(''text'', member kvs ''text''),
                (''currentWordIndex'', member kvs ''currentWordIndex''),
                (''totalWords'', member kvs ''totalWords''),
                (''settings'', member kvs ''settings''),
                (''savedAt'', Date_now w)]"
  have p1: "plain (member kvs ''text'')"
    using assms(1) unfolding kvs valid_session_def by (cases "member kvs ''text''") simp_all
  have p2: "plain (member kvs ''currentWordIndex'')"
    using assms(1) unfolding kvs valid_session_def
    by (cases "member kvs ''currentWordIndex''" rule: is_finite_number.cases) simp_all
  have p3: "plain (member kvs ''totalWords'')"
    using assms(1) unfolding kvs valid_session_def
    by (cases "member kvs ''totalWords''" rule: is_finite_number.cases) simp_all
  have p4: "plain (member kvs ''settings'')"
    using assms(1) unfolding kvs valid_session_def by simp
  have "list_all (\<lambda>p. plain (snd p)) ?data"
    using p1 p2 p3 p4 by (simp add: Date_now_def)
  from serialize_plain(3)[OF this] obtain ps where
    ps: "serialize_props ?data = Inr ps" "map (map_prod id of_json) ps = ?data"
    by (elim exE conjE) (rule that)
  have js: "JSON_stringify (Obj ?data) = Inr (JsonText (JObj ps))"
    by (simp only: JSON_stringify_def serialize.simps ps(1) sum.case option.case)
  have "save_body (Obj kvs) w =
          and_then (localStorage w) (\<lambda>m.
          and_then (JSON_stringify (Obj ?data)) (\<lambda>s. setItem STORAGE_KEY s w))"
    by (simp add: save_body_def)
  also have "\<dots> = Inr (w\<lparr>storage := Some (m(STORAGE_KEY \<mapsto> JsonText (JObj ps)))\<rparr>)"
    unfolding js using assms(2,3) by (simp add: localStorage_def setItem_def)
  finally have "save_body session w =
          Inr (w\<lparr>storage := Some (m(STORAGE_KEY \<mapsto> JsonText (JObj ps)))\<rparr>)"
    unfolding kvs .
  with kvs ps(2) show ?thesis
    by (intro exI[where x = kvs] exI[where x = ps]) simp
qed

lemma saveSession_fst: "fst (saveSession session w) \<Longrightarrow> \<exists>w'. save_body session w = Inr w'"
  by (cases "save_body session w") (simp_all add: saveSession_def)

lemma saveSession_Inr: "save_body session w = Inr w' \<Longrightarrow> saveSession session w = (True, w')"
  by (simp add: saveSession_def)

lemmas run_defs =
  saveSession_def save_body_def loadSession_def load_body_def hasSession_def
  clearSession_def getSessionSummary_def summary_body_def
  getItem_def setItem_def removeItem_def localStorage_def
  JSON_stringify_def Date_now_def advance_def console_error_def
  example_world_def example_session_def holding_def member_def stored_field_def
  valid_session_def STORAGE_KEY_def

section \<open>The conversions in double arithmetic\<close>

lemma is_double_1: "is_double 1"
  by code_simp

lemma is_double_100: "is_double 100"
  by code_simp

lemma round64_at_least:
  assumes "is_double y" and "0 < y" and "y \<le> x"
  shows "round64 x = PosInf \<or> (\<exists>u. round64 x = Fin u \<and> y \<le> u)"
proof -
  have x: "0 < x" using assms by simp
  from assms(1,2) have ry: "round64_pos y = y"
    by (auto simp: is_double_def round64_def Let_def split: if_splits)
  have "y \<le> round64_pos x" using round64_pos_mono[OF assms(2,3)] ry by simp
  then show ?thesis using x by (simp add: round64_def Let_def)
qed

lemma round64_nonpos:
  assumes "x \<le> 0"
  shows "round64 x = NegInf \<or> (\<exists>u. round64 x = Fin u \<and> u \<le> 0)"
proof (cases "x = 0")
  case True
  then show ?thesis by (simp add: round64_def)
next
  case False
  then have "0 < \<bar>x\<bar>" by simp
  from round64_pos_nonneg[OF this] show ?thesis
    using assms False by (simp add: round64_def Let_def)
qed

lemma clamp_range:
  assumes "p \<noteq> NaN"
  shows "\<exists>c. Math_max (Fin 0) (Math_min (Fin 100) p) = Fin c \<and> 0 \<le> c \<and> c \<le> 100"
  using assms by (cases p) (auto simp: Math_max_def Math_min_def)

lemma scaled_range:
  assumes "0 \<le> c" and "c \<le> 100" and "0 < r" and "is_double r"
  shows "\<exists>u. js_mul (js_div (Fin c) (Fin 100)) (Fin r) = Fin u \<and> 0 \<le> u \<and> u \<le> r"
proof -
  have "c / 100 \<le> 1" using assms(2) by simp
  moreover have "0 \<le> c / 100" using assms(1) by simp
  ultimately obtain q where q: "round64 (c / 100) = Fin q" "0 \<le> q" "q \<le> 1"
    using round64_between[OF _ _ is_double_1, of "c / 100"] by blast
  have "0 \<le> q * r" using q(2) assms(3) by simp
  moreover have "q * r \<le> r" using q(3) assms(3) by (simp add: mult_left_le_one_le)
  ultimately obtain u where "round64 (q * r) = Fin u" "0 \<le> u" "u \<le> r"
    using round64_between[OF _ _ assms(4), of "q * r"] by blast
  with q(1) show ?thesis by simp
qed

lemma truthy_positive: "tn \<noteq> NaN \<Longrightarrow> \<not> js_le tn (Fin 0) \<Longrightarrow> truthy (Num tn)"
  by (cases tn) auto

lemma pct_guard_falsy: "\<not> truthy t \<Longrightarrow> percentageToWordIndex p t = Some (Num (Fin 0))"
  by (simp add: percentageToWordIndex_def)

lemma pct_guard_nonpositive:
  "to_number t = Some n \<Longrightarrow> js_le n (Fin 0) \<Longrightarrow> percentageToWordIndex p t = Some (Num (Fin 0))"
  by (simp add: percentageToWordIndex_def)

lemma pct_formula:
  assumes "to_number p = Some pn" and "tn \<noteq> NaN" and "\<not> js_le tn (Fin 0)"
  shows "percentageToWordIndex p (Num tn) =
           Some (Num (Math_floor (js_mul
             (js_div (Math_max (Fin 0) (Math_min (Fin 100) pn)) (Fin 100)) tn)))"
  using assms truthy_positive[OF assms(2,3)]
  by (simp add: percentageToWordIndex_def Let_def del: truthy.simps)

lemma pct_range:
  assumes "to_number p = Some pn" and "pn \<noteq> NaN" and "0 < r" and "is_double r"
  shows "\<exists>i. percentageToWordIndex p (Num (Fin r)) = Some (Num (Fin (of_int i))) \<and>
           0 \<le> i \<and> of_int i \<le> r"
proof -
  from clamp_range[OF assms(2)] obtain c where
    c: "Math_max (Fin 0) (Math_min (Fin 100) pn) = Fin c" "0 \<le> c" "c \<le> 100" by blast
  from scaled_range[OF c(2,3) assms(3,4)] obtain u where
    u: "js_mul (js_div (Fin c) (Fin 100)) (Fin r) = Fin u" "0 \<le> u" "u \<le> r" by blast
  have "percentageToWordIndex p (Num (Fin r)) = Some (Num (Fin (of_int \<lfloor>u\<rfloor>)))"
    using pct_formula[OF assms(1), of "Fin r"] assms(3) unfolding c(1) u(1) by simp
  moreover have "0 \<le> \<lfloor>u\<rfloor>" using u(2) by simp
  moreover have "rat_of_int \<lfloor>u\<rfloor> \<le> r" using u(3) of_int_floor_le[of u] by linarith
  ultimately show ?thesis by blast
qed

lemma pct_full:
  assumes "0 < r" and "is_double r"
  shows "percentageToWordIndex (Num (Fin 100)) (Num (Fin r)) = Some (Num (Fin (of_int \<lfloor>r\<rfloor>)))"
proof -
  have c: "Math_max (Fin 0) (Math_min (Fin 100) (Fin 100)) = Fin 100"
    by (simp add: Math_max_def Math_min_def)
  have q: "js_div (Fin 100) (Fin 100) = Fin 1"
    using is_double_1 by (simp add: is_double_def)
  have u: "js_mul (Fin 1) (Fin r) = Fin r"
    using assms(2) by (simp add: is_double_def)
  show ?thesis
    using pct_formula[of "Num (Fin 100)" "Fin 100" "Fin r"] assms(1)
    unfolding c q u by simp
qed

lemma idx_guard_falsy: "\<not> truthy t \<Longrightarrow> wordIndexToPercentage i t = Some (Num (Fin 0))"
  by (simp add: wordIndexToPercentage_def)

lemma idx_guard_nonpositive:
  "to_number t = Some n \<Longrightarrow> js_le n (Fin 0) \<Longrightarrow> wordIndexToPercentage i t = Some (Num (Fin 0))"
  by (simp add: wordIndexToPercentage_def)

lemma idx_formula:
  assumes "to_number i = Some n" and "tn \<noteq> NaN" and "\<not> js_le tn (Fin 0)"
  shows "wordIndexToPercentage i (Num tn) =
           Some (Num (Math_round (js_mul (js_div n tn) (Fin 100))))"
  using assms truthy_positive[OF assms(2,3)]
  by (simp add: wordIndexToPercentage_def del: truthy.simps)

lemma Math_round_nearest:
  "\<exists>i. Math_round (Fin x) = Fin (of_int i) \<and> x - 1 / 2 < of_int i \<and> of_int i \<le> x + 1 / 2"
proof -
  have "x + 1 / 2 - 1 < rat_of_int \<lfloor>x + 1 / 2\<rfloor>" by linarith
  moreover have "rat_of_int \<lfloor>x + 1 / 2\<rfloor> \<le> x + 1 / 2" by (rule of_int_floor_le)
  ultimately show ?thesis by (intro exI[where x = "\<lfloor>x + 1 / 2\<rfloor>"]) simp
qed

lemma idx_at_least_100:
  assumes "0 < tr" and "tr \<le> wr"
  shows "\<exists>n. wordIndexToPercentage (Num (Fin wr)) (Num (Fin tr)) = Some (Num n) \<and>
           js_le (Fin 100) n"
proof -
  have f: "wordIndexToPercentage (Num (Fin wr)) (Num (Fin tr)) =
             Some (Num (Math_round (js_mul (round64 (wr / tr)) (Fin 100))))"
    using idx_formula[of "Num (Fin wr)" "Fin wr" "Fin tr"] assms(1) by simp
  have "1 \<le> wr / tr" using assms by simp
  from round64_at_least[OF is_double_1 _ this]
  consider "round64 (wr / tr) = PosInf" | u where "round64 (wr / tr) = Fin u" "1 \<le> u"
    by auto
  then have "js_le (Fin 100) (Math_round (js_mul (round64 (wr / tr)) (Fin 100)))"
  proof cases
    case 1
    then show ?thesis by simp
  next
    case 2
    have "100 \<le> u * 100" using 2(2) by simp
    from round64_at_least[OF is_double_100 _ this]
    consider "round64 (u * 100) = PosInf" | v where "round64 (u * 100) = Fin v" "100 \<le> v"
      by auto
    then show ?thesis
    proof cases
      case 1
      then show ?thesis using 2(1) by simp
    next
      case 2
      note v = this
      have "(100::int) \<le> \<lfloor>v + 1 / 2\<rfloor>" using v(2) by (simp add: le_floor_iff)
      then have "(100::rat) \<le> of_int \<lfloor>v + 1 / 2\<rfloor>" by linarith
      then show ?thesis using \<open>round64 (wr / tr) = Fin u\<close> v(1) by simp
    qed
  qed
  with f show ?thesis by blast
qed

lemma idx_at_most_0:
  assumes "0 < tr" and "wr < 0"
  shows "\<exists>n. wordIndexToPercentage (Num (Fin wr)) (Num (Fin tr)) = Some (Num n) \<and>
           js_le n (Fin 0)"
proof -
  have f: "wordIndexToPercentage (Num (Fin wr)) (Num (Fin tr)) =
             Some (Num (Math_round (js_mul (round64 (wr / tr)) (Fin 100))))"
    using idx_formula[of "Num (Fin wr)" "Fin wr" "Fin tr"] assms(1) by simp
  have "wr / tr \<le> 0" using assms by (simp add: divide_le_0_iff)
  from round64_nonpos[OF this]
  consider "round64 (wr / tr) = NegInf" | u where "round64 (wr / tr) = Fin u" "u \<le> 0"
    by auto
  then have "js_le (Math_round (js_mul (round64 (wr / tr)) (Fin 100))) (Fin 0)"
  proof cases
    case 1
    then show ?thesis by simp
  next
    case 2
    have "u * 100 \<le> 0" using 2(2) by simp
    from round64_nonpos[OF this]
    consider "round64 (u * 100) = NegInf" | v where "round64 (u * 100) = Fin v" "v \<le> 0"
      by auto
    then show ?thesis
    proof cases
      case 1
      then show ?thesis using 2(1) by simp
    next
      case 2
      note v = this
      have "\<lfloor>v + 1 / 2\<rfloor> \<le> 0" using v(2) by (simp add: floor_le_iff)
      then have "rat_of_int \<lfloor>v + 1 / 2\<rfloor> \<le> 0" by linarith
      then show ?thesis using \<open>round64 (wr / tr) = Fin u\<close> v(1) by simp
    qed
  qed
  with f show ?thesis by blast
qed

lemma idx_at_least_100_any:
  assumes "0 < tr" and "js_le (Fin tr) wn"
  shows "\<exists>n. wordIndexToPercentage (Num wn) (Num (Fin tr)) = Some (Num n) \<and>
           js_le (Fin 100) n"
proof (cases wn)
  case (Fin wr)
  then show ?thesis using idx_at_least_100[OF assms(1), of wr] assms(2) by simp
next
  case PosInf
  have "wordIndexToPercentage (Num PosInf) (Num (Fin tr)) = Some (Num PosInf)"
    using idx_formula[of "Num PosInf" PosInf "Fin tr"] assms(1) by simp
  then show ?thesis unfolding PosInf by simp
next
  case NegInf
  then show ?thesis using assms(2) by simp
next
  case NaN
  then show ?thesis using assms(2) by simp
qed

lemma idx_at_most_0_any:
  assumes "tn \<noteq> NaN" and "\<not> js_le tn (Fin 0)" and "wr < 0"
  shows "\<exists>n. wordIndexToPercentage (Num (Fin wr)) (Num tn) = Some (Num n) \<and>
           js_le n (Fin 0)"
proof (cases tn)
  case (Fin tr)
  then show ?thesis using idx_at_most_0[of tr wr] assms(2,3) by simp
next
  case PosInf
  have half: "\<lfloor>1 / 2 :: rat\<rfloor> = 0" by (rule floor_unique) simp_all
  have "wordIndexToPercentage (Num (Fin wr)) (Num PosInf) = Some (Num (Fin 0))"
    using idx_formula[of "Num (Fin wr)" "Fin wr" PosInf] by (simp add: round64_def half)
  then show ?thesis unfolding PosInf by simp
next
  case NegInf
  then show ?thesis using assms(2) by simp
next
  case NaN
  then show ?thesis using assms(1) by simp
qed

lemma idx_minus_infinity:
  assumes "0 < tr"
  shows "wordIndexToPercentage (Num NegInf) (Num (Fin tr)) = Some (Num NegInf)"
  using idx_formula[of "Num NegInf" NegInf "Fin tr"] assms by simp

lemma idx_both_infinite:
  "wordIndexToPercentage (Num PosInf) (Num PosInf) = Some (Num NaN)"
  "wordIndexToPercentage (Num NegInf) (Num PosInf) = Some (Num NaN)"
  using idx_formula[of "Num PosInf" PosInf PosInf] idx_formula[of "Num NegInf" NegInf PosInf]
  by simp_all

lemma pct_eval:
  assumes "Math_floor (js_mul (js_div (Math_max (Fin 0) (Math_min (Fin 100) (Fin p)))
             (Fin 100)) (Fin r)) = v"
    and "0 < r"
  shows "percentageToWordIndex (Num (Fin p)) (Num (Fin r)) = Some (Num v)"
  using pct_formula[of "Num (Fin p)" "Fin p" "Fin r"] assms by simp

lemma idx_eval:
  assumes "Math_round (js_mul (js_div (Fin i) (Fin r)) (Fin 100)) = v" and "0 < r"
  shows "wordIndexToPercentage (Num (Fin i)) (Num (Fin r)) = Some (Num v)"
  using idx_formula[of "Num (Fin i)" "Fin i" "Fin r"] assms by simp

text \<open>
  The values the specification lists for the two conversions, in double arithmetic.
\<close>

lemma percentageToWordIndex_examples:
  "percentageToWordIndex (Num (Fin 0)) (Num (Fin 1000)) = Some (Num (Fin 0))"
  "percentageToWordIndex (Num (Fin 50)) (Num (Fin 1000)) = Some (Num (Fin 500))"
  "percentageToWordIndex (Num (Fin 100)) (Num (Fin 1000)) = Some (Num (Fin 1000))"
  "percentageToWordIndex (Num (Fin 150)) (Num (Fin 1000)) = Some (Num (Fin 1000))"
  "percentageToWordIndex (Num (Fin (- 10))) (Num (Fin 1000)) = Some (Num (Fin 0))"
  "percentageToWordIndex (Num (Fin 50)) (Num (Fin 0)) = Some (Num (Fin 0))"
       apply (rule pct_eval, code_simp, simp)
      apply (rule pct_eval, code_simp, simp)
     apply (rule pct_eval, code_simp, simp)
    apply (rule pct_eval, code_simp, simp)
   apply (rule pct_eval, code_simp, simp)
  apply (simp add: pct_guard_falsy)
  done

lemma wordIndexToPercentage_examples:
  "wordIndexToPercentage (Num (Fin 500)) (Num (Fin 1000)) = Some (Num (Fin 50))"
  "wordIndexToPercentage (Num (Fin 0)) (Num (Fin 1000)) = Some (Num (Fin 0))"
  "wordIndexToPercentage (Num (Fin 1000)) (Num (Fin 1000)) = Some (Num (Fin 100))"
  "wordIndexToPercentage (Num (Fin 500)) (Num (Fin 0)) = Some (Num (Fin 0))"
  "wordIndexToPercentage (Num (Fin 1200)) (Num (Fin 1000)) = Some (Num (Fin 120))"
      apply (rule idx_eval, code_simp, simp)
     apply (rule idx_eval, code_simp, simp)
    apply (rule idx_eval, code_simp, simp)
   apply (simp add: idx_guard_falsy)
  apply (rule idx_eval, code_simp, simp)
  done

section \<open>The claims\<close>

text \<open>
  C1. A valid session that was saved successfully is loaded back with the same text,
  position, word count and settings, and with a \<open>savedAt\<close> that is not before the time
  \<open>clock w\<close> read before the call (\<open>d\<close> milliseconds pass until the save reads the clock).
\<close>

theorem save_load_roundtrip:
  assumes "valid_session s" and "fst (saveSession s (advance d w))"
  shows "\<exists>kvs t. s = Obj kvs \<and> clock w \<le> t \<and>
           loadSession (snd (saveSession s (advance d w))) =
             (Obj [(''text'', member kvs ''text''),
                   (''currentWordIndex'', member kvs ''currentWordIndex''),
                   (''totalWords'', member kvs ''totalWords''),
                   (''settings'', member kvs ''settings''),
                   (''savedAt'', Num (Fin (of_int t)))],
              snd (saveSession s (advance d w)))"
proof -
  let ?w = "advance d w"
  from saveSession_fst[OF assms(2)] obtain w1 where w1: "save_body s ?w = Inr w1" ..
  from save_body_Inr[OF w1] obtain m where m: "storage ?w = Some m" and nf: "\<not> full ?w"
    by (elim exE conjE)
  from save_body_valid[OF assms(1) m nf] obtain kvs ps where
    kvs: "s = Obj kvs" and
    ps: "map (map_prod id of_json) ps =
           [(''text'', member kvs ''text''),
            (''currentWordIndex'', member kvs ''currentWordIndex''),
            (''totalWords'', member kvs ''totalWords''),
            (''settings'', member kvs ''settings''),
            (''savedAt'', Date_now ?w)]" and
    sv: "save_body s ?w = Inr (?w\<lparr>storage := Some (m(STORAGE_KEY \<mapsto> JsonText (JObj ps)))\<rparr>)"
    by (elim exE conjE)
  let ?w1 = "?w\<lparr>storage := Some (m(STORAGE_KEY \<mapsto> JsonText (JObj ps)))\<rparr>"
  have snd: "snd (saveSession s ?w) = ?w1"
    using saveSession_Inr[OF sv] by simp
  have "loadSession ?w1 = (of_json (JObj ps), ?w1)"
    by (rule load_json[where m = "m(STORAGE_KEY \<mapsto> JsonText (JObj ps))"]) simp_all
  then have "loadSession ?w1 =
      (Obj [(''text'', member kvs ''text''),
            (''currentWordIndex'', member kvs ''currentWordIndex''),
            (''totalWords'', member kvs ''totalWords''),
            (''settings'', member kvs ''settings''),
            (''savedAt'', Num (Fin (of_int (clock w + int d))))], ?w1)"
    by (simp only: of_json.simps ps) (simp add: Date_now_def advance_def)
  then show ?thesis
    unfolding snd
    by (intro exI[where x = kvs] exI[where x = "clock w + int d"]) (simp add: kvs)
qed

theorem save_load_roundtrip_witness:
  "valid_session example_session \<and>
   fst (saveSession example_session (advance 250 example_world)) \<and>
   (\<exists>t. 1700000000000 \<le> t \<and>
      fst (loadSession (snd (saveSession example_session (advance 250 example_world)))) =
        Obj [(''text'', Str ''the quick brown fox''),
             (''currentWordIndex'', Num (Fin 2)),
             (''totalWords'', Num (Fin 4)),
             (''settings'', Obj [(''wpm'', Num (Fin 300)), (''chunk'', Arr [Bool True, Null])]),
             (''savedAt'', Num (Fin (of_int t)))])"
proof -
  have v: "valid_session example_session"
    by (simp add: example_session_def valid_session_def member_def)
  have s: "fst (saveSession example_session (advance 250 example_world))"
    by (simp add: run_defs)
  from save_load_roundtrip[OF v s] obtain kvs t where
    k: "example_session = Obj kvs" and t: "clock example_world \<le> t" and
    l: "loadSession (snd (saveSession example_session (advance 250 example_world))) =
          (Obj [(''text'', member kvs ''text''),
                (''currentWordIndex'', member kvs ''currentWordIndex''),
                (''totalWords'', member kvs ''totalWords''),
                (''settings'', member kvs ''settings''),
                (''savedAt'', Num (Fin (of_int t)))],
           snd (saveSession example_session (advance 250 example_world)))"
    by (elim exE conjE)
  from k have kvs: "kvs = [(''text'', Str ''the quick brown fox''),
          (''currentWordIndex'', Num (Fin 2)),
          (''totalWords'', Num (Fin 4)),
          (''settings'', Obj [(''wpm'', Num (Fin 300)), (''chunk'', Arr [Bool True, Null])]),
          (''savedAt'', Num (Fin 5))]"
    by (simp add: example_session_def)
  have "1700000000000 \<le> t" using t by (simp add: example_world_def)
  moreover have "fst (loadSession (snd (saveSession example_session (advance 250 example_world)))) =
        Obj [(''text'', Str ''the quick brown fox''),
             (''currentWordIndex'', Num (Fin 2)),
             (''totalWords'', Num (Fin 4)),
             (''settings'', Obj [(''wpm'', Num (Fin 300)), (''chunk'', Arr [Bool True, Null])]),
             (''savedAt'', Num (Fin (of_int t)))]"
    unfolding l kvs by (simp add: member_def)
  ultimately show ?thesis using v s by blast
qed

text \<open>
  C2, as the code has it. \<open>percentageToWordIndex\<close> returns 0 when \<open>totalWords\<close> is falsy
  (undefined, null, NaN, a zero) or a number not above 0. For a number \<open>totalWords\<close>
  above 0 it returns \<open>Math.floor\<close> of the product, rounded to a double, of
  \<open>totalWords\<close> and the quotient, rounded to a double, of the clamped percentage by 100.
  When the percentage is not NaN and \<open>totalWords\<close> is a positive double, that is an
  integer from 0 to \<open>totalWords\<close>, and for the percentage 100 it is the floor of
  \<open>totalWords\<close>.
\<close>

theorem percentageToWordIndex_in_doubles:
  "(\<not> truthy t0 \<longrightarrow> percentageToWordIndex p0 t0 = Some (Num (Fin 0))) \<and>
   (to_number t1 = Some n1 \<and> js_le n1 (Fin 0) \<longrightarrow>
      percentageToWordIndex p1 t1 = Some (Num (Fin 0))) \<and>
   (to_number p2 = Some n2 \<and> tn \<noteq> NaN \<and> \<not> js_le tn (Fin 0) \<longrightarrow>
      percentageToWordIndex p2 (Num tn) =
        Some (Num (Math_floor (js_mul
          (js_div (Math_max (Fin 0) (Math_min (Fin 100) n2)) (Fin 100)) tn)))) \<and>
   (to_number p3 = Some n3 \<and> n3 \<noteq> NaN \<and> 0 < r \<and> is_double r \<longrightarrow>
      (\<exists>i. percentageToWordIndex p3 (Num (Fin r)) = Some (Num (Fin (of_int i))) \<and>
           0 \<le> i \<and> of_int i \<le> r)) \<and>
   (0 < r' \<and> is_double r' \<longrightarrow>
      percentageToWordIndex (Num (Fin 100)) (Num (Fin r')) =
        Some (Num (Fin (of_int \<lfloor>r'\<rfloor>))))"
proof (intro conjI impI)
  assume "\<not> truthy t0"
  then show "percentageToWordIndex p0 t0 = Some (Num (Fin 0))" by (rule pct_guard_falsy)
next
  assume "to_number t1 = Some n1 \<and> js_le n1 (Fin 0)"
  then show "percentageToWordIndex p1 t1 = Some (Num (Fin 0))"
    by (elim conjE) (rule pct_guard_nonpositive)
next
  assume "to_number p2 = Some n2 \<and> tn \<noteq> NaN \<and> \<not> js_le tn (Fin 0)"
  then show "percentageToWordIndex p2 (Num tn) =
        Some (Num (Math_floor (js_mul
          (js_div (Math_max (Fin 0) (Math_min (Fin 100) n2)) (Fin 100)) tn)))"
    by (elim conjE) (rule pct_formula)
next
  assume "to_number p3 = Some n3 \<and> n3 \<noteq> NaN \<and> 0 < r \<and> is_double r"
  then show "\<exists>i. percentageToWordIndex p3 (Num (Fin r)) = Some (Num (Fin (of_int i))) \<and>
           0 \<le> i \<and> of_int i \<le> r"
    by (elim conjE) (rule pct_range)
next
  assume "0 < r' \<and> is_double r'"
  then show "percentageToWordIndex (Num (Fin 100)) (Num (Fin r')) =
        Some (Num (Fin (of_int \<lfloor>r'\<rfloor>)))"
    by (elim conjE) (rule pct_full)
qed

theorem percentageToWordIndex_in_doubles_witness:
  "percentageToWordIndex (Str ''half'') Undefined = Some (Num (Fin 0)) \<and>
   percentageToWordIndex (Num (Fin 50)) (Num (Fin (- 5))) = Some (Num (Fin 0)) \<and>
   percentageToWordIndex (Num (Fin 57)) (Num (Fin 100)) = Some (Num (Fin 56)) \<and>
   (\<exists>i. percentageToWordIndex (Num (Fin 150)) (Num (Fin 1000)) =
          Some (Num (Fin (of_int i))) \<and> 0 \<le> i \<and> rat_of_int i \<le> 1000) \<and>
   percentageToWordIndex (Num (Fin 100)) (Num (Fin 1000)) = Some (Num (Fin 1000))"
proof -
  note t = percentageToWordIndex_in_doubles[of Undefined "Str ''half''"
      "Num (Fin (- 5))" "Fin (- 5)" "Num (Fin 50)"
      "Num (Fin 57)" "Fin 57" "Fin 100"
      "Num (Fin 150)" "Fin 150" 1000 1000]
  have d: "is_double 1000" by code_simp
  have v: "Math_floor (js_mul (js_div (Math_max (Fin 0) (Math_min (Fin 100) (Fin 57)))
             (Fin 100)) (Fin 100)) = Fin 56"
    by code_simp
  have 1: "percentageToWordIndex (Str ''half'') Undefined = Some (Num (Fin 0))"
    using t[THEN conjunct1] by simp
  have 2: "percentageToWordIndex (Num (Fin 50)) (Num (Fin (- 5))) = Some (Num (Fin 0))"
    using t[THEN conjunct2, THEN conjunct1] by simp
  have "percentageToWordIndex (Num (Fin 57)) (Num (Fin 100)) =
        Some (Num (Math_floor (js_mul
          (js_div (Math_max (Fin 0) (Math_min (Fin 100) (Fin 57))) (Fin 100)) (Fin 100))))"
    using t[THEN conjunct2, THEN conjunct2, THEN conjunct1] by simp
  then have 3: "percentageToWordIndex (Num (Fin 57)) (Num (Fin 100)) = Some (Num (Fin 56))"
    unfolding v .
  have 4: "\<exists>i. percentageToWordIndex (Num (Fin 150)) (Num (Fin 1000)) =
          Some (Num (Fin (of_int i))) \<and> 0 \<le> i \<and> rat_of_int i \<le> 1000"
    using t[THEN conjunct2, THEN conjunct2, THEN conjunct2, THEN conjunct1] d by simp
  have 5: "percentageToWordIndex (Num (Fin 100)) (Num (Fin 1000)) = Some (Num (Fin 1000))"
    using t[THEN conjunct2, THEN conjunct2, THEN conjunct2, THEN conjunct2] d by simp
  from 1 2 3 4 5 show ?thesis by (intro conjI)
qed

text \<open>
  C2 as it is stated fails: a NaN percentage gives NaN, 100 percent of 2.5 words gives 2,
  and 57 percent of 100 words gives 56, where the floor of the exact product is 57.
\<close>

theorem percentageToWordIndex_counterexample:
  "percentageToWordIndex (Num NaN) (Num (Fin 1000)) = Some (Num NaN) \<and>
   percentageToWordIndex (Num (Fin 100)) (Num (Fin (5 / 2))) = Some (Num (Fin 2)) \<and>
   percentageToWordIndex (Num (Fin 57)) (Num (Fin 100)) = Some (Num (Fin 56)) \<and>
   \<lfloor>57 / 100 * (100 :: rat)\<rfloor> = 57"
proof (intro conjI)
  show "percentageToWordIndex (Num NaN) (Num (Fin 1000)) = Some (Num NaN)"
    by (simp add: pct_formula Math_max_def Math_min_def)
  show "percentageToWordIndex (Num (Fin 100)) (Num (Fin (5 / 2))) = Some (Num (Fin 2))"
    by (rule pct_eval, code_simp, simp)
  show "percentageToWordIndex (Num (Fin 57)) (Num (Fin 100)) = Some (Num (Fin 56))"
    by (rule pct_eval, code_simp, simp)
  show "\<lfloor>57 / 100 * (100 :: rat)\<rfloor> = 57" by simp
qed

text \<open>
  C3, as the code has it. \<open>wordIndexToPercentage\<close> returns 0 when \<open>totalWords\<close> is falsy
  (undefined, null, NaN, a zero) or a number not above 0. For a number \<open>totalWords\<close>
  above 0 it returns \<open>Math.round\<close>, the nearest integer with ties upwards, of the
  product by 100, rounded to a double, of the quotient, rounded to a double, of the
  index by \<open>totalWords\<close>. The index is not clamped. With a finite \<open>totalWords\<close>, an
  index of at least \<open>totalWords\<close>, \<open>+\<infinity>\<close> among them, gives 100 or more, and the index
  \<open>-\<infinity>\<close> gives \<open>-\<infinity>\<close>; a finite negative index gives 0 or less, whatever the
  \<open>totalWords\<close> above 0; 1200 of 1000 gives 120. When the index and \<open>totalWords\<close> are
  both infinite, the result is NaN.
\<close>

theorem wordIndexToPercentage_in_doubles:
  "(\<not> truthy t0 \<longrightarrow> wordIndexToPercentage i0 t0 = Some (Num (Fin 0))) \<and>
   (to_number t1 = Some n1 \<and> js_le n1 (Fin 0) \<longrightarrow>
      wordIndexToPercentage i1 t1 = Some (Num (Fin 0))) \<and>
   (to_number i2 = Some n2 \<and> tn \<noteq> NaN \<and> \<not> js_le tn (Fin 0) \<longrightarrow>
      wordIndexToPercentage i2 (Num tn) =
        Some (Num (Math_round (js_mul (js_div n2 tn) (Fin 100))))) \<and>
   (\<exists>k. Math_round (Fin x) = Fin (of_int k) \<and> x - 1 / 2 < of_int k \<and> of_int k \<le> x + 1 / 2) \<and>
   (0 < tr \<and> js_le (Fin tr) wn \<longrightarrow>
      (\<exists>n. wordIndexToPercentage (Num wn) (Num (Fin tr)) = Some (Num n) \<and>
           js_le (Fin 100) n)) \<and>
   (tn' \<noteq> NaN \<and> \<not> js_le tn' (Fin 0) \<and> wr' < 0 \<longrightarrow>
      (\<exists>n. wordIndexToPercentage (Num (Fin wr')) (Num tn') = Some (Num n) \<and>
           js_le n (Fin 0))) \<and>
   (0 < tr'' \<longrightarrow>
      wordIndexToPercentage (Num NegInf) (Num (Fin tr'')) = Some (Num NegInf)) \<and>
   wordIndexToPercentage (Num PosInf) (Num PosInf) = Some (Num NaN) \<and>
   wordIndexToPercentage (Num NegInf) (Num PosInf) = Some (Num NaN) \<and>
   wordIndexToPercentage (Num (Fin 1200)) (Num (Fin 1000)) = Some (Num (Fin 120))"
proof (intro conjI impI)
  assume "\<not> truthy t0"
  then show "wordIndexToPercentage i0 t0 = Some (Num (Fin 0))" by (rule idx_guard_falsy)
next
  assume "to_number t1 = Some n1 \<and> js_le n1 (Fin 0)"
  then show "wordIndexToPercentage i1 t1 = Some (Num (Fin 0))"
    by (elim conjE) (rule idx_guard_nonpositive)
next
  assume "to_number i2 = Some n2 \<and> tn \<noteq> NaN \<and> \<not> js_le tn (Fin 0)"
  then show "wordIndexToPercentage i2 (Num tn) =
        Some (Num (Math_round (js_mul (js_div n2 tn) (Fin 100))))"
    by (elim conjE) (rule idx_formula)
next
  show "\<exists>k. Math_round (Fin x) = Fin (of_int k) \<and> x - 1 / 2 < of_int k \<and> of_int k \<le> x + 1 / 2"
    by (rule Math_round_nearest)
next
  assume "0 < tr \<and> js_le (Fin tr) wn"
  then show "\<exists>n. wordIndexToPercentage (Num wn) (Num (Fin tr)) = Some (Num n) \<and>
           js_le (Fin 100) n"
    by (elim conjE) (rule idx_at_least_100_any)
next
  assume "tn' \<noteq> NaN \<and> \<not> js_le tn' (Fin 0) \<and> wr' < 0"
  then show "\<exists>n. wordIndexToPercentage (Num (Fin wr')) (Num tn') = Some (Num n) \<and>
           js_le n (Fin 0)"
    by (elim conjE) (rule idx_at_most_0_any)
next
  assume "0 < tr''"
  then show "wordIndexToPercentage (Num NegInf) (Num (Fin tr'')) = Some (Num NegInf)"
    by (rule idx_minus_infinity)
next
  show "wordIndexToPercentage (Num PosInf) (Num PosInf) = Some (Num NaN)"
    by (rule idx_both_infinite)
next
  show "wordIndexToPercentage (Num NegInf) (Num PosInf) = Some (Num NaN)"
    by (rule idx_both_infinite)
next
  show "wordIndexToPercentage (Num (Fin 1200)) (Num (Fin 1000)) = Some (Num (Fin 120))"
    by (rule wordIndexToPercentage_examples)
qed

theorem wordIndexToPercentage_in_doubles_witness:
  "wordIndexToPercentage (Num (Fin 500)) Null = Some (Num (Fin 0)) \<and>
   wordIndexToPercentage (Num (Fin 500)) (Num (Fin (- 3))) = Some (Num (Fin 0)) \<and>
   wordIndexToPercentage (Num (Fin 29)) (Num (Fin 200)) = Some (Num (Fin 14)) \<and>
   (\<exists>n. wordIndexToPercentage (Num (Fin 1200)) (Num (Fin 1000)) = Some (Num n) \<and>
        js_le (Fin 100) n) \<and>
   (\<exists>n. wordIndexToPercentage (Num PosInf) (Num (Fin 1000)) = Some (Num n) \<and>
        js_le (Fin 100) n) \<and>
   (\<exists>n. wordIndexToPercentage (Num (Fin (- 500))) (Num (Fin 1000)) = Some (Num n) \<and>
        js_le n (Fin 0)) \<and>
   (\<exists>n. wordIndexToPercentage (Num (Fin (- 500))) (Num PosInf) = Some (Num n) \<and>
        js_le n (Fin 0)) \<and>
   wordIndexToPercentage (Num NegInf) (Num (Fin 1000)) = Some (Num NegInf)"
proof -
  note t = wordIndexToPercentage_in_doubles[of Null "Num (Fin 500)"
      "Num (Fin (- 3))" "Fin (- 3)" "Num (Fin 500)"
      "Num (Fin 29)" "Fin 29" "Fin 200" 0 1000 "Fin 1200" "Fin 1000" "- 500" 1000]
  note u = wordIndexToPercentage_in_doubles[of Null "Num (Fin 500)"
      "Num (Fin (- 3))" "Fin (- 3)" "Num (Fin 500)"
      "Num (Fin 29)" "Fin 29" "Fin 200" 0 1000 PosInf PosInf "- 500" 1000]
  have v: "Math_round (js_mul (js_div (Fin 29) (Fin 200)) (Fin 100)) = Fin 14"
    by code_simp
  have 1: "wordIndexToPercentage (Num (Fin 500)) Null = Some (Num (Fin 0))"
    using t[THEN conjunct1] by simp
  have 2: "wordIndexToPercentage (Num (Fin 500)) (Num (Fin (- 3))) = Some (Num (Fin 0))"
    using t[THEN conjunct2, THEN conjunct1] by simp
  have "wordIndexToPercentage (Num (Fin 29)) (Num (Fin 200)) =
        Some (Num (Math_round (js_mul (js_div (Fin 29) (Fin 200)) (Fin 100))))"
    using t[THEN conjunct2, THEN conjunct2, THEN conjunct1] by simp
  then have 3: "wordIndexToPercentage (Num (Fin 29)) (Num (Fin 200)) = Some (Num (Fin 14))"
    unfolding v .
  have 4: "\<exists>n. wordIndexToPercentage (Num (Fin 1200)) (Num (Fin 1000)) = Some (Num n) \<and>
        js_le (Fin 100) n"
    using t[THEN conjunct2, THEN conjunct2, THEN conjunct2, THEN conjunct2, THEN conjunct1]
    by simp
  have 5: "\<exists>n. wordIndexToPercentage (Num PosInf) (Num (Fin 1000)) = Some (Num n) \<and>
        js_le (Fin 100) n"
    using u[THEN conjunct2, THEN conjunct2, THEN conjunct2, THEN conjunct2, THEN conjunct1]
    by simp
  have 6: "\<exists>n. wordIndexToPercentage (Num (Fin (- 500))) (Num (Fin 1000)) = Some (Num n) \<and>
        js_le n (Fin 0)"
    using t[THEN conjunct2, THEN conjunct2, THEN conjunct2, THEN conjunct2, THEN conjunct2,
        THEN conjunct1]
    by simp
  have 7: "\<exists>n. wordIndexToPercentage (Num (Fin (- 500))) (Num PosInf) = Some (Num n) \<and>
        js_le n (Fin 0)"
    using u[THEN conjunct2, THEN conjunct2, THEN conjunct2, THEN conjunct2, THEN conjunct2,
        THEN conjunct1]
    by simp
  have 8: "wordIndexToPercentage (Num NegInf) (Num (Fin 1000)) = Some (Num NegInf)"
    using t[THEN conjunct2, THEN conjunct2, THEN conjunct2, THEN conjunct2, THEN conjunct2,
        THEN conjunct2, THEN conjunct1]
    by simp
  from 1 2 3 4 5 6 7 8 show ?thesis by (intro conjI)
qed

text \<open>
  C3 as it is stated fails: the indices 1001 and -1 of 1000 words give 100 and 0, inside
  the range from 0 to 100, and a NaN \<open>totalWords\<close> gives 0 where the formula gives NaN.
\<close>

theorem wordIndexToPercentage_counterexample:
  "wordIndexToPercentage (Num (Fin 1001)) (Num (Fin 1000)) = Some (Num (Fin 100)) \<and>
   wordIndexToPercentage (Num (Fin (- 1))) (Num (Fin 1000)) = Some (Num (Fin 0)) \<and>
   wordIndexToPercentage (Num (Fin 500)) (Num NaN) = Some (Num (Fin 0)) \<and>
   Math_round (js_mul (js_div (Fin 500) NaN) (Fin 100)) = NaN"
proof (intro conjI)
  show "wordIndexToPercentage (Num (Fin 1001)) (Num (Fin 1000)) = Some (Num (Fin 100))"
    by (rule idx_eval, code_simp, simp)
  show "wordIndexToPercentage (Num (Fin (- 1))) (Num (Fin 1000)) = Some (Num (Fin 0))"
    by (rule idx_eval, code_simp, simp)
  show "wordIndexToPercentage (Num (Fin 500)) (Num NaN) = Some (Num (Fin 0))"
    by (simp add: idx_guard_falsy)
  show "Math_round (js_mul (js_div (Fin 500) NaN) (Fin 100)) = NaN"
    by simp
qed

text \<open>
  C4, as the code has it. The summary of a stored record has the four properties
  \<open>currentWordIndex\<close>, \<open>totalWords\<close>, \<open>savedAt\<close> and \<open>hasText\<close> and no \<open>text\<close>.
  \<open>hasText\<close> is the truthiness of the stored text: for a string, whether it is not
  empty; false when there is no text; true for any other truthy value.
\<close>

theorem summary_hasText_truthiness:
  assumes "storage w = Some m" and "m STORAGE_KEY = Some (JsonText (JObj props))"
  shows "(\<exists>c t s. getSessionSummary w =
            Obj [(''currentWordIndex'', c), (''totalWords'', t), (''savedAt'', s),
                 (''hasText'', Bool (truthy (stored_field props ''text'')))]) \<and>
         js_get (getSessionSummary w) ''text'' = Inr Undefined \<and>
         (map_of props ''text'' = Some (JStr x) \<longrightarrow>
            js_get (getSessionSummary w) ''hasText'' = Inr (Bool (x \<noteq> []))) \<and>
         (map_of props ''text'' = None \<longrightarrow>
            js_get (getSessionSummary w) ''hasText'' = Inr (Bool False))"
  unfolding summary_of_object[OF assms]
  by (simp add: member_def stored_field_def)

theorem summary_hasText_truthiness_witness:
  "js_get (getSessionSummary (holding (JsonText (JObj [(''text'', JStr ''abc'')])))) ''text'' =
     Inr Undefined \<and>
   js_get (getSessionSummary (holding (JsonText (JObj [(''text'', JStr ''abc'')])))) ''hasText'' =
     Inr (Bool True) \<and>
   js_get (getSessionSummary (holding (JsonText (JObj [(''totalWords'', JNum (Fin 3))]))))
     ''hasText'' = Inr (Bool False)"
proof -
  have a: "storage (holding s) = Some [STORAGE_KEY \<mapsto> s]" for s
    by (simp add: holding_def)
  have b: "[STORAGE_KEY \<mapsto> s] STORAGE_KEY = Some s" for s :: stored
    by simp
  from summary_hasText_truthiness[OF a b, of "[(''text'', JStr ''abc'')]" "''abc''"]
  have 1: "js_get (getSessionSummary (holding (JsonText (JObj [(''text'', JStr ''abc'')]))))
             ''text'' = Inr Undefined"
    and 2: "js_get (getSessionSummary (holding (JsonText (JObj [(''text'', JStr ''abc'')]))))
             ''hasText'' = Inr (Bool True)"
    by simp_all
  from summary_hasText_truthiness[OF a b, of "[(''totalWords'', JNum (Fin 3))]"]
  have 3: "js_get (getSessionSummary (holding (JsonText (JObj [(''totalWords'', JNum (Fin 3))]))))
     ''hasText'' = Inr (Bool False)"
    by simp
  from 1 2 3 show ?thesis by (intro conjI)
qed

text \<open>
  C4 as it is stated fails: a stored text 42 is no string, and \<open>hasText\<close> is true.
\<close>

theorem hasText_of_number_counterexample:
  "getSessionSummary (holding (JsonText (JObj [(''text'', JNum (Fin 42))]))) =
     Obj [(''currentWordIndex'', Undefined), (''totalWords'', Undefined),
          (''savedAt'', Undefined), (''hasText'', Bool True)]"
  by (simp add: run_defs)

text \<open>
  C5. Whatever the session holds, a record that is written carries the clock's reading as
  its only \<open>savedAt\<close>, it replaces what the slot held before, and a \<open>savedAt\<close> of the
  caller's does not change what is written.
\<close>

theorem savedAt_stamped_by_store:
  assumes "fst (saveSession session w)"
  shows "\<exists>m ps. storage w = Some m \<and>
           ''savedAt'' \<notin> fst ` set ps \<and>
           snd (saveSession session w) =
             w\<lparr>storage := Some (m(STORAGE_KEY \<mapsto>
                 JsonText (JObj (ps @ [(''savedAt'', JNum (Fin (of_int (clock w))))]))))\<rparr> \<and>
           saveSession (Obj ((''savedAt'', x) # kvs)) w = saveSession (Obj kvs) w"
proof -
  from saveSession_fst[OF assms] obtain w1 where w1: "save_body session w = Inr w1" ..
  from save_body_Inr[OF w1] obtain t c n st m ps where
    m: "storage w = Some m" and
    ps: "serialize_props [(''text'', t), (''currentWordIndex'', c),
                          (''totalWords'', n), (''settings'', st)] = Inr ps" and
    eq: "w1 = w\<lparr>storage := Some (m(STORAGE_KEY \<mapsto>
              JsonText (JObj (ps @ [(''savedAt'', JNum (Fin (of_int (clock w))))]))))\<rparr>"
    by (elim exE conjE)
  have "fst ` set ps \<subseteq> {''text'', ''currentWordIndex'', ''totalWords'', ''settings''}"
    using serialize_props_keys[OF ps] by simp
  then have k: "''savedAt'' \<notin> fst ` set ps" by auto
  have s: "snd (saveSession session w) = w1" using saveSession_Inr[OF w1] by simp
  have i: "saveSession (Obj ((''savedAt'', x) # kvs)) w = saveSession (Obj kvs) w"
    by (simp add: saveSession_def save_body_savedAt_ignored)
  show ?thesis
    unfolding s eq using m k i
    by (intro exI[where x = m] exI[where x = ps]) simp
qed

theorem savedAt_stamped_by_store_witness:
  "fst (saveSession example_session (holding NotJson)) \<and>
   (\<exists>ps. ''savedAt'' \<notin> fst ` set ps \<and>
      storage (snd (saveSession example_session (holding NotJson))) =
        Some [STORAGE_KEY \<mapsto>
          JsonText (JObj (ps @ [(''savedAt'', JNum (Fin 1700000000000))]))]) \<and>
   saveSession (Obj [(''savedAt'', Str ''never''), (''text'', Str ''a'')]) (holding NotJson) =
     saveSession (Obj [(''text'', Str ''a'')]) (holding NotJson)"
proof -
  have s: "fst (saveSession example_session (holding NotJson))"
    by (simp add: run_defs)
  from savedAt_stamped_by_store[OF s, of "Str ''never''" "[(''text'', Str ''a'')]"]
  obtain m ps where
    m: "storage (holding NotJson) = Some m" and
    k: "''savedAt'' \<notin> fst ` set ps" and
    e: "snd (saveSession example_session (holding NotJson)) =
          (holding NotJson)\<lparr>storage := Some (m(STORAGE_KEY \<mapsto>
            JsonText (JObj (ps @ [(''savedAt'',
              JNum (Fin (of_int (clock (holding NotJson)))))]))))\<rparr>" and
    i: "saveSession (Obj [(''savedAt'', Str ''never''), (''text'', Str ''a'')]) (holding NotJson) =
          saveSession (Obj [(''text'', Str ''a'')]) (holding NotJson)"
    by (elim exE conjE)
  from m have m': "m = [STORAGE_KEY \<mapsto> NotJson]" by (simp add: holding_def)
  have "storage (snd (saveSession example_session (holding NotJson))) =
        Some [STORAGE_KEY \<mapsto>
          JsonText (JObj (ps @ [(''savedAt'', JNum (Fin 1700000000000))]))]"
    unfolding e m' by (simp add: holding_def example_world_def)
  then show ?thesis using s k i by blast
qed

text \<open>
  C6, as the code has it. When localStorage cannot be reached or is full, \<open>saveSession\<close>
  returns false and logs one entry; nothing is thrown, as the result type says. On a stored
  string that is not empty and does not parse, \<open>loadSession\<close> returns null and logs one
  entry; on the empty string, which does not parse either, it returns null and logs
  nothing.
\<close>

theorem storage_failures_contained:
  "(storage w = None \<or> full w \<longrightarrow>
      (\<exists>e. saveSession session w =
         (False, w\<lparr>console := console w @ [(''Failed to save session:'', e)]\<rparr>))) \<and>
   (storage w' = Some m \<and> m STORAGE_KEY = Some NotJson \<longrightarrow>
      loadSession w' =
        (Null, w'\<lparr>console := console w' @ [(''Failed to load session:'', SyntaxError)]\<rparr>)) \<and>
   (storage w'' = Some m' \<and> m' STORAGE_KEY = Some EmptyString \<longrightarrow>
      loadSession w'' = (Null, w''))"
proof (intro conjI impI)
  assume "storage w = None \<or> full w"
  from save_body_no_room[OF this] obtain e where "save_body session w = Inl e" ..
  from saveSession_failure[OF this]
  show "\<exists>e. saveSession session w =
         (False, w\<lparr>console := console w @ [(''Failed to save session:'', e)]\<rparr>)"
    by (auto simp: console_error_def)
next
  assume "storage w' = Some m \<and> m STORAGE_KEY = Some NotJson"
  then show "loadSession w' =
        (Null, w'\<lparr>console := console w' @ [(''Failed to load session:'', SyntaxError)]\<rparr>)"
    by (simp add: load_not_json console_error_def)
next
  assume "storage w'' = Some m' \<and> m' STORAGE_KEY = Some EmptyString"
  then show "loadSession w'' = (Null, w'')"
    by (simp add: load_empty_string)
qed

theorem storage_failures_contained_witness:
  "(\<exists>e. saveSession example_session (example_world\<lparr>full := True\<rparr>) =
      (False, example_world\<lparr>full := True, console := [(''Failed to save session:'', e)]\<rparr>)) \<and>
   (\<exists>e. saveSession example_session (example_world\<lparr>storage := None\<rparr>) =
      (False, example_world\<lparr>storage := None,
         console := [(''Failed to save session:'', e)]\<rparr>)) \<and>
   loadSession (holding NotJson) =
     (Null, (holding NotJson)\<lparr>console := [(''Failed to load session:'', SyntaxError)]\<rparr>) \<and>
   loadSession (holding EmptyString) = (Null, holding EmptyString)"
proof -
  have a: "full (example_world\<lparr>full := True\<rparr>)" by simp
  have b: "storage (example_world\<lparr>storage := None\<rparr>) = None" by simp
  have c: "storage (holding NotJson) = Some [STORAGE_KEY \<mapsto> NotJson] \<and>
           [STORAGE_KEY \<mapsto> NotJson] STORAGE_KEY = Some NotJson"
    by (simp add: holding_def)
  have d: "storage (holding EmptyString) = Some [STORAGE_KEY \<mapsto> EmptyString] \<and>
           [STORAGE_KEY \<mapsto> EmptyString] STORAGE_KEY = Some EmptyString"
    by (simp add: holding_def)
  have n: "console example_world = []" "console (holding NotJson) = []"
    by (simp_all add: holding_def example_world_def)
  note t1 = storage_failures_contained[of "example_world\<lparr>full := True\<rparr>" example_session
      "holding NotJson" "[STORAGE_KEY \<mapsto> NotJson]"
      "holding EmptyString" "[STORAGE_KEY \<mapsto> EmptyString]"]
  note t2 = storage_failures_contained[of "example_world\<lparr>storage := None\<rparr>" example_session]
  from t1 a n have 1: "\<exists>e. saveSession example_session (example_world\<lparr>full := True\<rparr>) =
      (False, example_world\<lparr>full := True, console := [(''Failed to save session:'', e)]\<rparr>)"
    by simp
  from t2 b n have 2: "\<exists>e. saveSession example_session (example_world\<lparr>storage := None\<rparr>) =
      (False, example_world\<lparr>storage := None,
         console := [(''Failed to save session:'', e)]\<rparr>)"
    by simp
  from t1 c n have 3: "loadSession (holding NotJson) =
     (Null, (holding NotJson)\<lparr>console := [(''Failed to load session:'', SyntaxError)]\<rparr>)"
    by simp
  from t1 d have 4: "loadSession (holding EmptyString) = (Null, holding EmptyString)"
    by simp
  from 1 2 3 4 show ?thesis by (intro conjI)
qed

text \<open>
  C6 as it is stated fails: the empty string does not parse, and \<open>loadSession\<close> on it
  logs nothing.
\<close>

theorem load_empty_string_counterexample:
  "loadSession (holding EmptyString) = (Null, holding EmptyString) \<and>
   console (holding EmptyString) = []"
  by (simp add: run_defs)

text \<open>
  C7. Clearing a reachable localStorage returns true and leaves the slot empty, also
  when it was empty before and when it is cleared again; after \<open>clearSession\<close>, with
  any host, \<open>loadSession\<close> returns null and \<open>hasSession\<close> false.
\<close>

theorem clearSession_idempotent:
  "(storage w = Some m \<longrightarrow>
      clearSession w = (True, w\<lparr>storage := Some (m(STORAGE_KEY := None))\<rparr>) \<and>
      clearSession (snd (clearSession w)) = (True, snd (clearSession w))) \<and>
   (storage w = Some m \<and> m STORAGE_KEY = None \<longrightarrow> clearSession w = (True, w)) \<and>
   fst (loadSession (snd (clearSession w))) = Null \<and>
   \<not> hasSession (snd (clearSession w))"
proof (cases "storage w")
  case None
  then show ?thesis
    by (simp add: clearSession_def removeItem_def localStorage_def console_error_def
        load_unavailable hasSession_def getItem_def)
next
  case (Some m')
  have c: "clearSession w = (True, w\<lparr>storage := Some (m'(STORAGE_KEY := None))\<rparr>)"
    using Some by (simp add: clearSession_def removeItem_def localStorage_def)
  have l: "loadSession (w\<lparr>storage := Some (m'(STORAGE_KEY := None))\<rparr>) =
             (Null, w\<lparr>storage := Some (m'(STORAGE_KEY := None))\<rparr>)"
    by (rule load_absent[where m = "m'(STORAGE_KEY := None)"]) simp_all
  have h: "\<not> hasSession (w\<lparr>storage := Some (m'(STORAGE_KEY := None))\<rparr>)"
    by (simp add: hasSession_def getItem_def localStorage_def)
  have again: "clearSession (w\<lparr>storage := Some (m'(STORAGE_KEY := None))\<rparr>) =
                 (True, w\<lparr>storage := Some (m'(STORAGE_KEY := None))\<rparr>)"
    by (simp add: clearSession_def removeItem_def localStorage_def)
  have same: "m' STORAGE_KEY = None \<Longrightarrow> w\<lparr>storage := Some (m'(STORAGE_KEY := None))\<rparr> = w"
    using Some by (simp add: fun_upd_idem)
  show ?thesis
    using Some c l h again same by auto
qed

theorem clearSession_idempotent_witness:
  "clearSession (holding NotJson) = (True, example_world) \<and>
   clearSession example_world = (True, example_world) \<and>
   fst (loadSession (snd (clearSession (holding NotJson)))) = Null \<and>
   \<not> hasSession (snd (clearSession (holding NotJson)))"
proof -
  have a: "storage (holding NotJson) = Some [STORAGE_KEY \<mapsto> NotJson]"
    by (simp add: holding_def)
  have b: "storage example_world = Some Map.empty \<and> Map.empty STORAGE_KEY = None"
    by (simp add: example_world_def)
  have e: "(holding NotJson)\<lparr>storage := Some ([STORAGE_KEY \<mapsto> NotJson](STORAGE_KEY := None))\<rparr>
             = example_world"
    by (simp add: holding_def example_world_def)
  note c = clearSession_idempotent[of "holding NotJson" "[STORAGE_KEY \<mapsto> NotJson]"]
  from c a e have 1: "clearSession (holding NotJson) = (True, example_world)"
    by simp
  from c have 3: "fst (loadSession (snd (clearSession (holding NotJson)))) = Null"
    by (elim conjE)
  from c have 4: "\<not> hasSession (snd (clearSession (holding NotJson)))"
    by (elim conjE)
  from clearSession_idempotent[of example_world Map.empty] b
  have 2: "clearSession example_world = (True, example_world)"
    by simp
  from 1 2 3 4 show ?thesis by simp
qed

text \<open>
  C8. With the empty string in the slot, \<open>hasSession\<close> says there is a session, while
  \<open>loadSession\<close> and \<open>getSessionSummary\<close> return null.
\<close>

theorem empty_string_disagreement:
  assumes "storage w = Some m" and "m STORAGE_KEY = Some EmptyString"
  shows "hasSession w \<and> loadSession w = (Null, w) \<and> getSessionSummary w = Null"
  using assms
  by (simp add: hasSession_def getItem_available load_empty_string
      getSessionSummary_def summary_body_def)

theorem empty_string_disagreement_witness:
  "hasSession (holding EmptyString) \<and>
   loadSession (holding EmptyString) = (Null, holding EmptyString) \<and>
   getSessionSummary (holding EmptyString) = Null"
  using empty_string_disagreement[of "holding EmptyString" "[STORAGE_KEY \<mapsto> EmptyString]"]
  by (simp add: holding_def)

text \<open>
  C9. A \<open>totalWords\<close> that is NaN, null or undefined makes both conversions return 0,
  whatever the other argument is.
\<close>

theorem falsy_totalWords_gives_zero:
  "percentageToWordIndex p (Num NaN) = Some (Num (Fin 0)) \<and>
   percentageToWordIndex p Null = Some (Num (Fin 0)) \<and>
   percentageToWordIndex p Undefined = Some (Num (Fin 0)) \<and>
   wordIndexToPercentage i (Num NaN) = Some (Num (Fin 0)) \<and>
   wordIndexToPercentage i Null = Some (Num (Fin 0)) \<and>
   wordIndexToPercentage i Undefined = Some (Num (Fin 0))"
  by (simp add: percentageToWordIndex_def wordIndexToPercentage_def)

text \<open>
  C10. The summary hands over \<open>currentWordIndex\<close>, \<open>totalWords\<close> and \<open>savedAt\<close> of a
  stored record as they were parsed, whatever their type, and \<open>undefined\<close> for one that
  the record does not have.
\<close>

theorem summary_forwards_fields:
  assumes "storage w = Some m" and "m STORAGE_KEY = Some (JsonText (JObj props))"
    and "k \<in> {''currentWordIndex'', ''totalWords'', ''savedAt''}"
  shows "js_get (getSessionSummary w) k =
           Inr (case map_of props k of None \<Rightarrow> Undefined | Some j \<Rightarrow> of_json j)"
  using assms(3) unfolding summary_of_object[OF assms(1,2)]
  by (auto simp: member_def stored_field_def)

theorem summary_forwards_fields_witness:
  "js_get (getSessionSummary (holding (JsonText (JObj
       [(''totalWords'', JStr ''many''), (''currentWordIndex'', JNum (Fin 7))]))))
     ''totalWords'' = Inr (Str ''many'') \<and>
   js_get (getSessionSummary (holding (JsonText (JObj
       [(''totalWords'', JStr ''many''), (''currentWordIndex'', JNum (Fin 7))]))))
     ''savedAt'' = Inr Undefined"
proof -
  let ?props = "[(''totalWords'', JStr ''many''), (''currentWordIndex'', JNum (Fin 7))]"
  have a: "storage (holding (JsonText (JObj ?props))) =
             Some [STORAGE_KEY \<mapsto> JsonText (JObj ?props)]"
    by (simp add: holding_def)
  have b: "[STORAGE_KEY \<mapsto> JsonText (JObj ?props)] STORAGE_KEY = Some (JsonText (JObj ?props))"
    by simp
  have k1: "''totalWords'' \<in> {''currentWordIndex'', ''totalWords'', ''savedAt''}" by simp
  have k2: "''savedAt'' \<in> {''currentWordIndex'', ''totalWords'', ''savedAt''}" by simp
  from summary_forwards_fields[OF a b k1] summary_forwards_fields[OF a b k2]
  show ?thesis by simp
qed

end
